theory Spec2Isabelle
  imports Main "HOL-Library.AList"
begin

section \<open>Values, errors and the helpers of the JavaScript runtime\<close>

text \<open>
  The generated project's gulp tasks are JavaScript modules. Two of them are verified here:
  the guide task (\<^verbatim>\<open>gulp/guide.js\<close>, function \<^verbatim>\<open>build\<close>, display name
  \<^verbatim>\<open>guide:build\<close>) and the watch task (function \<^verbatim>\<open>build\<close>, display name
  \<^verbatim>\<open>watch\<close>). Exceptions are values: a function that may throw returns
  \<open>error + 'a\<close> with \<open>Inl\<close> the error thrown.
\<close>

datatype error =
    TypeError string
  | Thrown string

text \<open>
  The default export of a fragment module is plain data. \<open>JUndefined\<close> is also what the
  destructuring \<^verbatim>\<open>const {default: guide} = ...\<close> yields for a module without a
  default export. An object is an ordinary, extensible object with writable data
  properties: the list of its own properties and its prototype, where \<open>None\<close> is
  \<^verbatim>\<open>Object.prototype\<close>, which an object literal has, \<open>Some JNull\<close> is no prototype,
  and \<open>Some p\<close> is the object \<open>p\<close>. The exports of different module instances are
  different objects, so an export never contains the object it is assigned to.
\<close>

datatype jsval =
    JUndefined
  | JNull
  | JBool bool
  | JNum int
  | JStr string
  | JObj "(string \<times> jsval) list" "jsval option"

text \<open>
  Whether looking up \<^verbatim>\<open>__proto__\<close> from an object finds the accessor property of
  \<^verbatim>\<open>Object.prototype\<close>: no object on the prototype chain has an own property of this
  name, and the chain ends in \<^verbatim>\<open>Object.prototype\<close>.
\<close>

fun proto_accessor :: "jsval \<Rightarrow> bool" where
  "proto_accessor (JObj ps None) = (''__proto__'' \<notin> set (map fst ps))"
| "proto_accessor (JObj ps (Some p)) = (''__proto__'' \<notin> set (map fst ps) \<and> proto_accessor p)"
| "proto_accessor v = False"

text \<open>
  \<^verbatim>\<open>guide[key] = value\<close> in module (strict) code. On \<^verbatim>\<open>undefined\<close>, \<^verbatim>\<open>null\<close> or
  a primitive the assignment throws a TypeError. On an object the own property is
  overwritten in place or appended, except for the key \<^verbatim>\<open>__proto__\<close> when it is the
  accessor of \<^verbatim>\<open>Object.prototype\<close>: its setter makes an object or \<^verbatim>\<open>null\<close> the new
  prototype, ignores any other value, and creates no property.
\<close>

fun set_prop :: "jsval \<Rightarrow> string \<Rightarrow> jsval \<Rightarrow> error + jsval" where
  "set_prop (JObj ps pr) k v =
     (if k = ''__proto__'' \<and> proto_accessor (JObj ps pr)
      then (case v of
              JObj qs qr \<Rightarrow> Inr (JObj ps (Some v))
            | JNull \<Rightarrow> Inr (JObj ps (Some JNull))
            | _ \<Rightarrow> Inr (JObj ps pr))
      else Inr (JObj (AList.update k v ps) pr))"
| "set_prop JUndefined k v = Inl (TypeError ''Cannot set properties of undefined'')"
| "set_prop JNull k v = Inl (TypeError ''Cannot set properties of null'')"
| "set_prop (JBool b) k v = Inl (TypeError ''Cannot create property on boolean'')"
| "set_prop (JNum n) k v = Inl (TypeError ''Cannot create property on number'')"
| "set_prop (JStr s) k v = Inl (TypeError ''Cannot create property on string'')"

text \<open>The own property of an object under a key, and the keys of its own properties.\<close>

fun get_prop :: "jsval \<Rightarrow> string \<Rightarrow> jsval option" where
  "get_prop (JObj ps pr) k = map_of ps k"
| "get_prop v k = None"

fun own_keys :: "jsval \<Rightarrow> string list" where
  "own_keys (JObj ps pr) = map fst ps"
| "own_keys v = []"

subsection \<open>String and array methods\<close>

fun starts_with :: "string \<Rightarrow> string \<Rightarrow> bool" where
  "starts_with s [] = True"
| "starts_with [] (c # cs) = False"
| "starts_with (x # xs) (c # cs) = (x = c \<and> starts_with xs cs)"

text \<open>\<^verbatim>\<open>s.includes(sub)\<close>: \<open>sub\<close> occurs in \<open>s\<close> as a contiguous run of characters.\<close>

fun str_includes :: "string \<Rightarrow> string \<Rightarrow> bool" where
  "str_includes [] sub = (sub = [])"
| "str_includes (x # xs) sub = (starts_with (x # xs) sub \<or> str_includes xs sub)"

text \<open>\<^verbatim>\<open>xs.findIndex(P)\<close>: the first position whose element satisfies \<open>P\<close>, or -1.\<close>

fun findIndex :: "('a \<Rightarrow> bool) \<Rightarrow> 'a list \<Rightarrow> int" where
  "findIndex P [] = - 1"
| "findIndex P (x # xs) =
     (if P x then 0
      else (let i = findIndex P xs in if i < 0 then - 1 else i + 1))"

text \<open>
  \<^verbatim>\<open>xs.splice(start, deleteCount)\<close>: a negative \<open>start\<close> counts from the end and is
  clamped at 0, a positive one is clamped at the length; the number of deleted elements is
  clamped to what is left. The result is the removed elements and the array that remains
  (the source's array is mutated in place).
\<close>

definition splice_js :: "'a list \<Rightarrow> int \<Rightarrow> int \<Rightarrow> 'a list \<times> 'a list" where
  "splice_js xs start deleteCount =
     (let n = int (length xs);
          s = (if start < 0 then max (n + start) 0 else min start n);
          d = min (max deleteCount 0) (n - s)
      in (take (nat d) (drop (nat s) xs), take (nat s) xs @ drop (nat (s + d)) xs))"

text \<open>\<^verbatim>\<open>xs[0]\<close>: \<^verbatim>\<open>undefined\<close> (here \<open>None\<close>) on an empty array.\<close>

fun first_elem :: "'a list \<Rightarrow> 'a option" where
  "first_elem [] = None"
| "first_elem (x # xs) = Some x"

subsection \<open>\<^verbatim>\<open>node:path/posix\<close>\<close>

text \<open>
  The last component of a path, trailing slashes ignored, as both \<^verbatim>\<open>basename\<close> and
  \<^verbatim>\<open>extname\<close> of Node compute it first.
\<close>

definition last_segment :: "string \<Rightarrow> string" where
  "last_segment p =
     rev (takeWhile (\<lambda>c. c \<noteq> CHR ''/'') (dropWhile (\<lambda>c. c = CHR ''/'') (rev p)))"

text \<open>
  \<^verbatim>\<open>extname(path)\<close>: from the last dot of the last component to its end; empty when
  there is no dot, when the only dot is the component's first character, and for the
  component \<^verbatim>\<open>..\<close>.
\<close>

definition extname :: "string \<Rightarrow> string" where
  "extname p =
     (let seg = last_segment p;
          ext = rev (takeWhile (\<lambda>c. c \<noteq> CHR ''.'') (rev seg));
          stem = take (length seg - length ext - 1) seg
      in if CHR ''.'' \<notin> set seg then []
         else if stem = [] then []
         else if seg = ''..'' then []
         else CHR ''.'' # ext)"

fun ends_with :: "string \<Rightarrow> string \<Rightarrow> bool" where
  "ends_with s suffix = starts_with (rev s) (rev suffix)"

text \<open>
  \<^verbatim>\<open>basename(path, suffix)\<close>: the last component, without \<open>suffix\<close> when the component
  ends with it and is longer than it.
\<close>

definition basename :: "string \<Rightarrow> string \<Rightarrow> string" where
  "basename p suffix =
     (let seg = last_segment p
      in if suffix \<noteq> [] \<and> suffix = p then []
         else if suffix \<noteq> [] \<and> ends_with seg suffix \<and> length suffix < length seg
              then take (length seg - length suffix) seg
         else seg)"

text \<open>
  \<^verbatim>\<open>join('..', file)\<close>. Node throws a TypeError when an argument is not a string, which
  happens here when \<open>file\<close> is \<^verbatim>\<open>undefined\<close>. The paths globby returns are normalised and
  relative, so joining only puts \<^verbatim>\<open>../\<close> in front.
\<close>

fun join_parent :: "string option \<Rightarrow> error + string" where
  "join_parent None = Inl (TypeError ''The path argument must be of type string. Received undefined'')"
| "join_parent (Some file) = Inr (''../'' @ file)"

section \<open>The collaborators and the state of the process\<close>

datatype task =
    StylesBuild | FontsBuild | SymbolsBuild | ImagesBuild | LibsBuild
  | ScriptsBuild | ViewsBuild | GuideBuild | Reload

datatype event =
    Started task
  | Finished task
  | Failed task error

text \<open>
  What the task reads from outside the process. \<open>matched\<close> is the result of
  \<^verbatim>\<open>globbySync(config.guide)\<close> (globby lists a path once), \<open>package_json\<close> that of
  \<^verbatim>\<open>JSON.parse(readFileSync('./package.json'))\<close>, \<open>modules path\<close> what a fresh evaluation
  of the module file at \<open>path\<close> gives (its default export, or the error thrown by loading
  or evaluating it), \<open>now k\<close> the value of the \<open>k\<close>-th call of \<^verbatim>\<open>Date.now()\<close> in the
  process, \<open>generateGuide\<close> whether the render collaborator throws for a package and a
  guide, and \<open>outcome t\<close> whether the build task \<open>t\<close>, whose body is in another module,
  reports an error.
\<close>

record env =
  matched :: "error + string list"
  package_json :: "error + jsval"
  modules :: "string \<Rightarrow> error + jsval"
  now :: "nat \<Rightarrow> nat"
  generateGuide :: "jsval \<Rightarrow> jsval \<Rightarrow> error option"
  outcome :: "task \<Rightarrow> error option"

text \<open>
  The state of the running process. \<open>cache\<close> is the module cache of the ES module loader:
  one entry per import specifier, here the pair of the path and the \<^verbatim>\<open>?t=\<close> marker,
  holding the settled result of the first load, a failure included. \<open>ticks\<close> counts the calls of
  \<^verbatim>\<open>Date.now()\<close>, \<open>imported\<close> lists the dynamic imports in the order they were made,
  each with its specifier and what it settled to, \<open>console\<close> the errors printed with \<^verbatim>\<open>console.error\<close>,
  \<open>done_calls\<close> the calls of the guide task's \<^verbatim>\<open>done\<close> callback, \<open>render_calls\<close> the
  arguments of the calls of the render collaborator, \<open>reloads\<close> the calls of the reload
  task and \<open>trace\<close> the start and completion of every task run by a composition.
\<close>

record world =
  cache :: "((string \<times> nat) \<times> (error + jsval)) list"
  ticks :: nat
  imported :: "((string \<times> nat) \<times> (error + jsval)) list"
  console :: "error list"
  done_calls :: nat
  render_calls :: "(jsval \<times> jsval) list"
  reloads :: nat
  trace :: "event list"

section \<open>The guide task\<close>

text \<open>
  \<^verbatim>\<open>await import(`${path}?t=${Date.now()}`)\<close>: the clock is read, the specifier is
  looked up in the module cache, and only a specifier that is not there evaluates the file.
\<close>

definition import_module :: "env \<Rightarrow> string \<Rightarrow> world \<Rightarrow> (error + jsval) \<times> world" where
  "import_module env path w =
     (let spec = (path, now env (ticks w));
          w1 = w\<lparr>ticks := Suc (ticks w)\<rparr>
      in case map_of (cache w) spec of
           Some r \<Rightarrow> (r, w1\<lparr>imported := imported w @ [(spec, r)]\<rparr>)
         | None \<Rightarrow>
             (modules env path,
              w1\<lparr>imported := imported w @ [(spec, modules env path)],
                 cache := cache w @ [(spec, modules env path)]\<rparr>))"

text \<open>
  The guide object is the default export of the index module, which the module cache holds
  too: an assignment to it is seen by a later import of the same specifier.
\<close>

definition store_guide :: "string \<times> nat \<Rightarrow> jsval \<Rightarrow> world \<Rightarrow> world" where
  "store_guide gspec guide w = w\<lparr>cache := AList.update gspec (Inr guide) (cache w)\<rparr>"

text \<open>The test \<^verbatim>\<open>file => file.includes('index')\<close>.\<close>

definition is_index :: "string \<Rightarrow> bool" where
  "is_index file = str_includes file ''index''"

text \<open>The key of a fragment, \<^verbatim>\<open>basename(file, extname(file))\<close>.\<close>

definition key_of :: "string \<Rightarrow> string" where
  "key_of file = basename file (extname file)"

text \<open>The loop \<^verbatim>\<open>for (const file of files)\<close> of \<^verbatim>\<open>build\<close>.\<close>

fun load_fragments ::
  "env \<Rightarrow> string \<times> nat \<Rightarrow> string list \<Rightarrow> jsval \<Rightarrow> world \<Rightarrow> (error + jsval) \<times> world" where
  "load_fragments env gspec [] guide w = (Inr guide, w)"
| "load_fragments env gspec (file # files) guide w =
     (let key = key_of file
      in case join_parent (Some file) of
           Inl e \<Rightarrow> (Inl e, w)
         | Inr path \<Rightarrow>
             (case import_module env path w of
                (Inl e, w1) \<Rightarrow> (Inl e, w1)
              | (Inr v, w1) \<Rightarrow>
                  (case set_prop guide key v of
                     Inl e \<Rightarrow> (Inl e, w1)
                   | Inr guide' \<Rightarrow>
                       load_fragments env gspec files guide' (store_guide gspec guide' w1))))"

text \<open>
  \<^verbatim>\<open>files.splice(files.findIndex(file => file.includes('index')), 1)[0]\<close>: the file
  taken out of the list, \<^verbatim>\<open>undefined\<close> when nothing was taken out, and the list that
  remains.
\<close>

definition split_index :: "string list \<Rightarrow> string option \<times> string list" where
  "split_index files0 =
     (let (removed, files) =
            splice_js files0 (findIndex is_index files0) 1
      in (first_elem removed, files))"

text \<open>
  \<^verbatim>\<open>async function build(done)\<close> of \<^verbatim>\<open>gulp/guide.js\<close>. The result is the error the
  returned promise is rejected with, or \<open>None\<close> when it resolves.
\<close>

definition guide_build :: "env \<Rightarrow> world \<Rightarrow> error option \<times> world" where
  "guide_build env w =
     (case matched env of
        Inl e \<Rightarrow> (Some e, w)
      | Inr files0 \<Rightarrow>
          (case split_index files0 of
             (index, files) \<Rightarrow>
               (case package_json env of
                  Inl e \<Rightarrow> (Some e, w)
                | Inr pkg \<Rightarrow>
                    (case join_parent index of
                       Inl e \<Rightarrow> (Some e, w)
                     | Inr path \<Rightarrow>
                         (case import_module env path w of
                            (Inl e, w1) \<Rightarrow> (Some e, w1)
                          | (Inr guide0, w1) \<Rightarrow>
                              (case load_fragments env (path, now env (ticks w)) files guide0 w1 of
                                 (Inl e, w2) \<Rightarrow> (Some e, w2)
                               | (Inr guide, w2) \<Rightarrow>
                                   (let w3 = w2\<lparr>render_calls := render_calls w2 @ [(pkg, guide)]\<rparr>;
                                        w4 = (case generateGuide env pkg guide of
                                                None \<Rightarrow> w3
                                              | Some e \<Rightarrow> w3\<lparr>console := console w3 @ [e]\<rparr>)
                                    in (None, w4\<lparr>done_calls := Suc (done_calls w4)\<rparr>))))))))"

subsection \<open>Import specifiers\<close>

text \<open>
  The specifiers of successive imports of the files \<open>fs\<close>, in this order, when the clock
  has been read \<open>k\<close> times before: each import reads the clock once.
\<close>

fun import_specs :: "env \<Rightarrow> nat \<Rightarrow> string list \<Rightarrow> (string \<times> nat) list" where
  "import_specs env k [] = []"
| "import_specs env k (f # fs) = (''../'' @ f, now env k) # import_specs env (Suc k) fs"

text \<open>
  The imports of \<open>fs\<close> are fresh in a state when their specifiers differ from each other
  and none of them is in the module cache.
\<close>

definition fresh_imports :: "env \<Rightarrow> world \<Rightarrow> string list \<Rightarrow> bool" where
  "fresh_imports env w fs \<longleftrightarrow>
     distinct (import_specs env (ticks w) fs)
     \<and> list_all (\<lambda>s. map_of (cache w) s = None) (import_specs env (ticks w) fs)"

text \<open>The loop of \<^verbatim>\<open>build\<close> when every import evaluates its file: no cache, no clock.\<close>

fun merge_fragments :: "(string \<Rightarrow> error + jsval) \<Rightarrow> string list \<Rightarrow> jsval \<Rightarrow> error + jsval" where
  "merge_fragments m [] guide = Inr guide"
| "merge_fragments m (f # fs) guide =
     (case m (''../'' @ f) of
        Inl e \<Rightarrow> Inl e
      | Inr v \<Rightarrow>
          (case set_prop guide (key_of f) v of
             Inl e \<Rightarrow> Inl e
           | Inr guide' \<Rightarrow> merge_fragments m fs guide'))"

text \<open>
  The assignments \<^verbatim>\<open>guide[key] = value\<close> of the loop alone, for the keys and values in
  the order of the loop.
\<close>

fun assign_all :: "jsval \<Rightarrow> (string \<times> jsval) list \<Rightarrow> error + jsval" where
  "assign_all guide [] = Inr guide"
| "assign_all guide ((key, v) # kvs) =
     (case set_prop guide key v of
        Inl e \<Rightarrow> Inl e
      | Inr guide' \<Rightarrow> assign_all guide' kvs)"

section \<open>Compositions of tasks\<close>

text \<open>
  Modelled from the spec: the bodies of the build tasks \<^verbatim>\<open>styles.build\<close>,
  \<^verbatim>\<open>fonts.build\<close>, \<^verbatim>\<open>symbols.build\<close>, \<^verbatim>\<open>images.build\<close>, \<^verbatim>\<open>libs.build\<close>,
  \<^verbatim>\<open>scripts.build\<close> and \<^verbatim>\<open>views.build\<close> and of \<^verbatim>\<open>reload\<close> (\<^verbatim>\<open>gulp/browser.js\<close>)
  are in modules that are not part of the verified sources. A build task is an opaque unit
  that reads files and produces files and signals completion or an error; \<^verbatim>\<open>reload\<close> is
  the one operation of the reload channel, fire and forget. The body of the guide task is
  \<open>guide_build\<close>.
\<close>

definition task_body :: "env \<Rightarrow> task \<Rightarrow> world \<Rightarrow> error option \<times> world" where
  "task_body env t w =
     (if t = GuideBuild then guide_build env w
      else if t = Reload then (None, w\<lparr>reloads := Suc (reloads w)\<rparr>)
      else (outcome env t, w))"

datatype node =
    Leaf task
  | Series "node list"
  | Parallel "node list"

text \<open>
  Modelled from the spec: \<^verbatim>\<open>series\<close> and \<^verbatim>\<open>parallel\<close> are gulp's, not this
  repository's. A leaf runs its task and waits for its completion signal. A series runs
  each child after the previous one has completed; when a child fails the remaining
  children do not start and the series fails with that child's error; an empty series
  completes successfully. A parallel composition starts all its children, none is
  cancelled when a sibling fails, and it fails when a child failed. The children of a
  parallel composition are run here one after the other in the order they are listed,
  which is one of the schedules the cooperative runtime allows, and of several errors the
  first listed is reported.
\<close>

definition run_leaf :: "env \<Rightarrow> task \<Rightarrow> world \<Rightarrow> error option \<times> world" where
  "run_leaf env t w =
     (case task_body env t (w\<lparr>trace := trace w @ [Started t]\<rparr>) of
        (None, w1) \<Rightarrow> (None, w1\<lparr>trace := trace w1 @ [Finished t]\<rparr>)
      | (Some e, w1) \<Rightarrow> (Some e, w1\<lparr>trace := trace w1 @ [Failed t e]\<rparr>))"

fun run :: "env \<Rightarrow> node \<Rightarrow> world \<Rightarrow> error option \<times> world"
  and run_series :: "env \<Rightarrow> node list \<Rightarrow> world \<Rightarrow> error option \<times> world"
  and run_parallel :: "env \<Rightarrow> node list \<Rightarrow> world \<Rightarrow> error option \<times> world" where
  "run env (Leaf t) w = run_leaf env t w"
| "run env (Series ns) w = run_series env ns w"
| "run env (Parallel ns) w = run_parallel env ns w"
| "run_series env [] w = (None, w)"
| "run_series env (n # ns) w =
     (case run env n w of
        (Some e, w1) \<Rightarrow> (Some e, w1)
      | (None, w1) \<Rightarrow> run_series env ns w1)"
| "run_parallel env [] w = (None, w)"
| "run_parallel env (n # ns) w =
     (case run env n w of
        (r, w1) \<Rightarrow>
          (case run_parallel env ns w1 of
             (r', w2) \<Rightarrow> (case r of Some e \<Rightarrow> Some e | None \<Rightarrow> r', w2)))"

fun leaves :: "node \<Rightarrow> task list" where
  "leaves (Leaf t) = [t]"
| "leaves (Series ns) = concat (map leaves ns)"
| "leaves (Parallel ns) = concat (map leaves ns)"

section \<open>The watch task\<close>

text \<open>
  The source patterns of the configuration, which is not part of the verified sources:
  \<^verbatim>\<open>config.src.styles\<close>, \<^verbatim>\<open>config.src.fonts\<close>, \<^verbatim>\<open>config.src.symbols\<close>,
  \<^verbatim>\<open>config.src.images\<close>, \<^verbatim>\<open>config.libs\<close>, \<^verbatim>\<open>config.src.scripts\<close>,
  \<^verbatim>\<open>config.src.views[0]\<close> and \<^verbatim>\<open>config.guide\<close>.
\<close>

datatype pattern =
    SrcStyles | SrcFonts | SrcSymbols | SrcImages | ConfigLibs
  | SrcScripts | SrcViews0 | ConfigGuide

text \<open>
  The watchers gulp holds, in the order they were registered, and the calls of the watch
  task's \<^verbatim>\<open>done\<close> callback.
\<close>

record gulp =
  routes :: "(pattern \<times> node) list"
  watch_done :: nat

text \<open>
  Modelled from the spec: \<^verbatim>\<open>watch(globs, task)\<close> is gulp's. It registers one
  watcher that binds the pattern to the composition.
\<close>

definition watch :: "pattern \<Rightarrow> node \<Rightarrow> gulp \<Rightarrow> gulp" where
  "watch p n g = g\<lparr>routes := routes g @ [(p, n)]\<rparr>"

text \<open>\<^verbatim>\<open>function build(done)\<close> of the watch module.\<close>

definition watch_build :: "gulp \<Rightarrow> gulp" where
  "watch_build g0 =
     (let g1 = watch SrcStyles (Leaf StylesBuild) g0;
          g2 = watch SrcFonts (Series [Leaf FontsBuild, Leaf Reload]) g1;
          g3 = watch SrcSymbols (Series [Leaf SymbolsBuild, Leaf Reload]) g2;
          g4 = watch SrcImages (Series [Leaf ImagesBuild, Leaf Reload]) g3;
          g5 = watch ConfigLibs (Series [Leaf LibsBuild, Leaf Reload]) g4;
          g6 = watch SrcScripts (Series [Leaf ScriptsBuild, Leaf Reload]) g5;
          g7 = watch SrcViews0
                 (Series [Parallel [Leaf ViewsBuild, Leaf GuideBuild], Leaf Reload]) g6;
          g8 = watch ConfigGuide (Series [Leaf GuideBuild, Leaf Reload]) g7
      in g8\<lparr>watch_done := Suc (watch_done g8)\<rparr>)"

definition no_watchers :: gulp where
  "no_watchers = \<lparr>routes = [], watch_done = 0\<rparr>"

text \<open>
  Modelled from the spec: the dispatcher is gulp's \<^verbatim>\<open>watch\<close>. A change of a file that
  matches the pattern of a watcher runs the composition of that watcher once, from its
  initial state.
\<close>

definition on_change :: "env \<Rightarrow> gulp \<Rightarrow> pattern \<Rightarrow> world \<Rightarrow> (error option \<times> world) option" where
  "on_change env g p w =
     (case map_of (routes g) p of
        None \<Rightarrow> None
      | Some n \<Rightarrow> Some (run env n w))"

section \<open>Example environments\<close>

text \<open>
  A process that has just started, and a project with three guide fragments whose clock
  advances by one millisecond per reading.
\<close>

definition idle :: world where
  "idle = \<lparr>cache = [], ticks = 0, imported = [], console = [], done_calls = 0,
            render_calls = [], reloads = 0, trace = []\<rparr>"

definition fragment_modules :: "string \<Rightarrow> error + jsval" where
  "fragment_modules path =
     (if path = ''../guide/index.js'' then Inr (JObj [(''title'', JStr ''Guide'')] None)
      else if path = ''../guide/button.js'' then Inr (JObj [(''label'', JStr ''v1'')] None)
      else if path = ''../guide/card.js'' then Inr (JObj [(''label'', JStr ''card'')] None)
      else Inl (Thrown ''Cannot find module''))"

definition demo_clock :: "nat \<Rightarrow> nat" where
  "demo_clock k = 1000 + k"

definition no_error :: "task \<Rightarrow> error option" where
  "no_error t = None"

definition render_ok :: "jsval \<Rightarrow> jsval \<Rightarrow> error option" where
  "render_ok pkg guide = None"

definition demo_env :: env where
  "demo_env = \<lparr>matched = Inr [''guide/index.js'', ''guide/button.js'', ''guide/card.js''],
                package_json = Inr (JObj [(''name'', JStr ''demo'')] None),
                modules = fragment_modules, now = demo_clock,
                generateGuide = render_ok, outcome = no_error\<rparr>"

text \<open>The fonts task reports an error.\<close>

definition fonts_fail :: "task \<Rightarrow> error option" where
  "fonts_fail t = (if t = FontsBuild then Some (Thrown ''fonts failed'') else None)"

definition fonts_fail_env :: env where
  "fonts_fail_env = demo_env\<lparr>outcome := fonts_fail\<rparr>"

text \<open>The file \<^verbatim>\<open>guide/button.js\<close> has been edited on disk.\<close>

definition edited_modules :: "string \<Rightarrow> error + jsval" where
  "edited_modules path =
     (if path = ''../guide/button.js'' then Inr (JObj [(''label'', JStr ''v2'')] None)
      else fragment_modules path)"

definition edited_env :: env where
  "edited_env = demo_env\<lparr>modules := edited_modules\<rparr>"

text \<open>A clock whose readings all fall into the same millisecond.\<close>

definition stuck_clock :: "nat \<Rightarrow> nat" where
  "stuck_clock k = 1000"

definition stuck_env :: env where
  "stuck_env = demo_env\<lparr>now := stuck_clock\<rparr>"

definition stuck_edited_env :: env where
  "stuck_edited_env = edited_env\<lparr>now := stuck_clock\<rparr>"

text \<open>Collaborators that throw.\<close>

definition render_fails :: "jsval \<Rightarrow> jsval \<Rightarrow> error option" where
  "render_fails pkg guide = Some (Thrown ''render failed'')"

definition render_fail_env :: env where
  "render_fail_env = demo_env\<lparr>generateGuide := render_fails\<rparr>"

definition glob_fail_env :: env where
  "glob_fail_env = demo_env\<lparr>matched := Inl (Thrown ''glob failed'')\<rparr>"

definition pkg_fail_env :: env where
  "pkg_fail_env = demo_env\<lparr>package_json := Inl (Thrown ''ENOENT package.json'')\<rparr>"

definition missing_module_env :: env where
  "missing_module_env = demo_env\<lparr>matched := Inr [''guide/index.js'', ''guide/missing.js'']\<rparr>"

text \<open>Matched lists without an index file, and fragments with the same base name.\<close>

definition no_index_env :: env where
  "no_index_env = demo_env\<lparr>matched := Inr [''guide/button.js'', ''guide/card.js'']\<rparr>"

definition no_files_env :: env where
  "no_files_env = demo_env\<lparr>matched := Inr []\<rparr>"

definition clash_modules :: "string \<Rightarrow> error + jsval" where
  "clash_modules path =
     (if path = ''../guide/index.js'' then Inr (JObj [(''button'', JStr ''from index'')] None)
      else if path = ''../guide/a/button.js'' then Inr (JStr ''from a'')
      else if path = ''../guide/b/button.js'' then Inr (JStr ''from b'')
      else Inl (Thrown ''Cannot find module''))"

definition clash_env :: env where
  "clash_env =
     demo_env\<lparr>matched := Inr [''guide/a/button.js'', ''guide/index.js'', ''guide/b/button.js''],
              modules := clash_modules\<rparr>"

text \<open>Fragments whose base name is \<^verbatim>\<open>__proto__\<close>.\<close>

definition proto_modules :: "string \<Rightarrow> error + jsval" where
  "proto_modules path =
     (if path = ''../guide/index.js'' then Inr (JObj [(''title'', JStr ''Guide'')] None)
      else if path = ''../guide/__proto__.js'' then Inr (JStr ''dropped'')
      else if path = ''../guide/a/__proto__.js'' then Inr (JObj [(''from'', JStr ''a'')] None)
      else if path = ''../guide/b/__proto__.js'' then Inr (JStr ''from b'')
      else Inl (Thrown ''Cannot find module''))"

definition proto_env :: env where
  "proto_env =
     demo_env\<lparr>matched := Inr [''guide/index.js'', ''guide/__proto__.js''],
              modules := proto_modules\<rparr>"

definition proto_clash_env :: env where
  "proto_clash_env =
     demo_env\<lparr>matched := Inr [''guide/index.js'', ''guide/a/__proto__.js'', ''guide/b/__proto__.js''],
              modules := proto_modules\<rparr>"

section \<open>What the guide task leaves untouched\<close>

lemma import_module_frame:
  assumes "import_module env path w = (r, w')"
  shows "reloads w' = reloads w" and "trace w' = trace w" and "console w' = console w"
    and "done_calls w' = done_calls w" and "render_calls w' = render_calls w"
    and "ticks w' = Suc (ticks w)"
  using assms by (auto simp: import_module_def Let_def split: option.splits)

lemma store_guide_frame:
  "reloads (store_guide s g w) = reloads w" "trace (store_guide s g w) = trace w"
  "console (store_guide s g w) = console w" "done_calls (store_guide s g w) = done_calls w"
  "render_calls (store_guide s g w) = render_calls w" "ticks (store_guide s g w) = ticks w"
  "imported (store_guide s g w) = imported w"
  by (simp_all add: store_guide_def)

lemma load_fragments_frame:
  assumes "load_fragments env gspec files guide w = (r, w')"
  shows "reloads w' = reloads w \<and> trace w' = trace w \<and> console w' = console w
     \<and> done_calls w' = done_calls w \<and> render_calls w' = render_calls w"
  using assms
proof (induction files arbitrary: guide w)
  case Nil
  then show ?case by simp
next
  case (Cons f fs)
  obtain r1 w1 where i: "import_module env (''../'' @ f) w = (r1, w1)"
    by (cases "import_module env (''../'' @ f) w")
  note fr = import_module_frame [OF i]
  show ?case
  proof (cases r1)
    case (Inl e)
    with Cons.prems i fr show ?thesis by simp
  next
    case (Inr v)
    show ?thesis
    proof (cases "set_prop guide (key_of f) v")
      case (Inl e)
      with Cons.prems i fr Inr show ?thesis by simp
    next
      case sp: (Inr guide')
      from Cons.prems i Inr sp
      have "load_fragments env gspec fs guide' (store_guide gspec guide' w1) = (r, w')"
        by simp
      from Cons.IH [OF this] fr show ?thesis by (simp add: store_guide_frame)
    qed
  qed
qed

lemma guide_build_cases:
  assumes "guide_build env w = (r, w')"
  obtains
    (glob) e where "matched env = Inl e" "r = Some e" "w' = w"
  | (pkg) files0 e where "matched env = Inr files0" "package_json env = Inl e"
      "r = Some e" "w' = w"
  | (undefined_index) files0 pkg rest e where "matched env = Inr files0"
      "package_json env = Inr pkg" "split_index files0 = (None, rest)"
      "join_parent None = Inl e" "r = Some e" "w' = w"
  | (index_fails) files0 pkg idx rest e where "matched env = Inr files0"
      "package_json env = Inr pkg" "split_index files0 = (Some idx, rest)"
      "import_module env (''../'' @ idx) w = (Inl e, w')" "r = Some e"
  | (fragment_fails) files0 pkg idx rest guide0 w1 e where "matched env = Inr files0"
      "package_json env = Inr pkg" "split_index files0 = (Some idx, rest)"
      "import_module env (''../'' @ idx) w = (Inr guide0, w1)"
      "load_fragments env (''../'' @ idx, now env (ticks w)) rest guide0 w1 = (Inl e, w')"
      "r = Some e"
  | (rendered) files0 pkg idx rest guide0 w1 guide w2 where "matched env = Inr files0"
      "package_json env = Inr pkg" "split_index files0 = (Some idx, rest)"
      "import_module env (''../'' @ idx) w = (Inr guide0, w1)"
      "load_fragments env (''../'' @ idx, now env (ticks w)) rest guide0 w1 = (Inr guide, w2)"
      "r = None"
      "w' = w2\<lparr>render_calls := render_calls w2 @ [(pkg, guide)],
                console := (case generateGuide env pkg guide of
                              None \<Rightarrow> console w2 | Some e \<Rightarrow> console w2 @ [e]),
                done_calls := Suc (done_calls w2)\<rparr>"
proof (cases "matched env")
  case (Inl e)
  with assms glob show ?thesis by (simp add: guide_build_def)
next
  case m: (Inr files0)
  obtain index rest where sp: "split_index files0 = (index, rest)"
    by (cases "split_index files0")
  show ?thesis
  proof (cases "package_json env")
    case (Inl e)
    with assms m sp pkg show ?thesis by (simp add: guide_build_def)
  next
    case p: (Inr pkg)
    show ?thesis
    proof (cases index)
      case None
      with assms m sp p undefined_index show ?thesis by (simp add: guide_build_def)
    next
      case (Some idx)
      obtain r1 w1 where i: "import_module env (''../'' @ idx) w = (r1, w1)"
        by (cases "import_module env (''../'' @ idx) w")
      show ?thesis
      proof (cases r1)
        case (Inl e)
        with assms m sp p Some i index_fails show ?thesis by (simp add: guide_build_def)
      next
        case g0: (Inr guide0)
        obtain r2 w2 where
          l: "load_fragments env (''../'' @ idx, now env (ticks w)) rest guide0 w1 = (r2, w2)"
          by (cases "load_fragments env (''../'' @ idx, now env (ticks w)) rest guide0 w1")
        show ?thesis
        proof (cases r2)
          case (Inl e)
          with assms m sp p Some i g0 l fragment_fails show ?thesis
            by (simp add: guide_build_def)
        next
          case (Inr guide)
          have "r = None \<and> w' = w2\<lparr>render_calls := render_calls w2 @ [(pkg, guide)],
                console := (case generateGuide env pkg guide of
                              None \<Rightarrow> console w2 | Some e \<Rightarrow> console w2 @ [e]),
                done_calls := Suc (done_calls w2)\<rparr>"
            using assms m sp p Some i g0 l Inr
            by (auto simp: guide_build_def Let_def split: option.splits)
          with m sp p Some i g0 l Inr rendered show ?thesis by blast
        qed
      qed
    qed
  qed
qed

lemma guide_build_frame:
  assumes "guide_build env w = (r, w')"
  shows "reloads w' = reloads w" and "trace w' = trace w"
  using assms
  by (cases rule: guide_build_cases;
      auto dest!: load_fragments_frame dest: import_module_frame)+

lemma task_body_trace:
  assumes "task_body env t w = (r, w')"
  shows "trace w' = trace w"
  using assms by (auto simp: task_body_def split: if_splits dest: guide_build_frame)

lemma task_body_reloads:
  assumes "task_body env t w = (r, w')"
  shows "reloads w' = (if t = Reload then Suc (reloads w) else reloads w)"
  using assms by (auto simp: task_body_def split: if_splits dest: guide_build_frame)

lemma task_body_Reload: "task_body env Reload w = (None, w\<lparr>reloads := Suc (reloads w)\<rparr>)"
  by (simp add: task_body_def)

lemma run_leaf_reloads:
  assumes "run_leaf env t w = (r, w')"
  shows "reloads w' = (if t = Reload then Suc (reloads w) else reloads w)"
proof -
  obtain r1 w1 where b: "task_body env t (w\<lparr>trace := trace w @ [Started t]\<rparr>) = (r1, w1)"
    by (cases "task_body env t (w\<lparr>trace := trace w @ [Started t]\<rparr>)")
  from task_body_reloads [OF b] assms b show ?thesis
    by (auto simp: run_leaf_def split: option.splits)
qed

lemma run_no_reload:
  "Reload \<notin> set (leaves n) \<Longrightarrow> reloads (snd (run env n w)) = reloads w"
  "Reload \<notin> set (concat (map leaves ns)) \<Longrightarrow> reloads (snd (run_series env ns w)) = reloads w"
  "Reload \<notin> set (concat (map leaves ns)) \<Longrightarrow> reloads (snd (run_parallel env ns w)) = reloads w"
proof (induction env n w and env ns w and env ns w rule: run_run_series_run_parallel.induct)
  case (1 env t w)
  then show ?case using run_leaf_reloads [of env t w] by (cases "run_leaf env t w") auto
next
  case (5 env n ns w)
  then show ?case by (cases "run env n w") (auto split: option.splits)
next
  case (7 env n ns w)
  then show ?case
    by (cases "run env n w"; cases "run_parallel env ns (snd (run env n w))") (auto split: option.splits)
qed simp_all

section \<open>Running compositions\<close>

lemma run_leaf_trace:
  assumes "run_leaf env t w = (r, w')"
  shows "trace w' = trace w @ [Started t, (case r of None \<Rightarrow> Finished t | Some e \<Rightarrow> Failed t e)]"
proof -
  obtain r1 w1 where b: "task_body env t (w\<lparr>trace := trace w @ [Started t]\<rparr>) = (r1, w1)"
    by (cases "task_body env t (w\<lparr>trace := trace w @ [Started t]\<rparr>)")
  from task_body_trace [OF b] assms b show ?thesis
    by (auto simp: run_leaf_def split: option.splits)
qed

lemma watch_routes:
  "routes (watch_build no_watchers) =
     [(SrcStyles, Leaf StylesBuild),
      (SrcFonts, Series [Leaf FontsBuild, Leaf Reload]),
      (SrcSymbols, Series [Leaf SymbolsBuild, Leaf Reload]),
      (SrcImages, Series [Leaf ImagesBuild, Leaf Reload]),
      (ConfigLibs, Series [Leaf LibsBuild, Leaf Reload]),
      (SrcScripts, Series [Leaf ScriptsBuild, Leaf Reload]),
      (SrcViews0, Series [Parallel [Leaf ViewsBuild, Leaf GuideBuild], Leaf Reload]),
      (ConfigGuide, Series [Leaf GuideBuild, Leaf Reload])]"
  by (simp add: watch_build_def watch_def no_watchers_def)

lemma run_then_reload:
  assumes "Reload \<notin> set (leaves c)"
  shows "reloads (snd (run env (Series [c, Leaf Reload]) w)) =
           (if fst (run env (Series [c, Leaf Reload]) w) = None then Suc (reloads w) else reloads w)"
proof -
  obtain r1 w1 where c: "run env c w = (r1, w1)" by (cases "run env c w")
  from run_no_reload(1) [OF assms, of env w] c have r1: "reloads w1 = reloads w" by simp
  show ?thesis
  proof (cases r1)
    case None
    obtain r2 w2 where l: "run_leaf env Reload w1 = (r2, w2)" by (cases "run_leaf env Reload w1")
    from l have "r2 = None" by (simp add: run_leaf_def task_body_Reload)
    with run_leaf_reloads [OF l] c None l r1 show ?thesis by simp
  next
    case (Some e)
    with c r1 show ?thesis by simp
  qed
qed

section \<open>The import log and the completion signal\<close>

lemma import_module_imported:
  assumes "import_module env path w = (r, w')"
  shows "imported w' = imported w @ [((path, now env (ticks w)), r)]"
  using assms by (auto simp: import_module_def Let_def split: option.splits)

lemma load_fragments_imported:
  assumes "load_fragments env gspec fs guide w = (r, w')"
  shows "\<exists>new. imported w' = imported w @ new
           \<and> (\<forall>s e. (s, Inl e) \<in> set new \<longrightarrow> r = Inl e)"
  using assms
proof (induction fs arbitrary: guide w)
  case Nil
  then show ?case by simp
next
  case (Cons f fs)
  obtain r1 w1 where i: "import_module env (''../'' @ f) w = (r1, w1)"
    by (cases "import_module env (''../'' @ f) w")
  note im = import_module_imported [OF i]
  show ?case
  proof (cases r1)
    case (Inl e)
    with Cons.prems i im show ?thesis by auto
  next
    case (Inr v)
    show ?thesis
    proof (cases "set_prop guide (key_of f) v")
      case (Inl e)
      with Cons.prems i im Inr show ?thesis by auto
    next
      case sp: (Inr guide')
      from Cons.prems i Inr sp
      have "load_fragments env gspec fs guide' (store_guide gspec guide' w1) = (r, w')"
        by simp
      from Cons.IH [OF this] obtain new where
        "imported w' = imported (store_guide gspec guide' w1) @ new"
        "\<forall>s e. (s, Inl e) \<in> set new \<longrightarrow> r = Inl e" by blast
      with im Inr show ?thesis by (auto simp: store_guide_frame)
    qed
  qed
qed

lemma guide_build_imported:
  assumes "guide_build env w = (r, w')" and "imported w' = imported w @ new"
    and "(s, Inl e) \<in> set new"
  shows "r = Some e"
  using assms(1)
proof (cases rule: guide_build_cases)
  case (index_fails files0 pkg idx rest e')
  from import_module_imported [OF index_fails(4)] assms(2,3) index_fails(5)
  show ?thesis by auto
next
  case (fragment_fails files0 pkg idx rest guide0 w1 e')
  from load_fragments_imported [OF fragment_fails(5)]
    import_module_imported [OF fragment_fails(4)] assms(2,3) fragment_fails(6)
  show ?thesis by (cases s) auto
next
  case (rendered files0 pkg idx rest guide0 w1 guide w2)
  from load_fragments_imported [OF rendered(5)]
    import_module_imported [OF rendered(4)] assms(2,3) rendered(7)
  show ?thesis by (cases s) auto
qed (use assms(2,3) in auto)

lemma guide_build_done:
  assumes "guide_build env w = (r, w')"
  shows "r = None \<Longrightarrow> done_calls w' = Suc (done_calls w)"
    and "r \<noteq> None \<Longrightarrow> done_calls w' = done_calls w \<and> render_calls w' = render_calls w
           \<and> console w' = console w"
  using assms
  by (cases rule: guide_build_cases;
      auto dest!: load_fragments_frame dest: import_module_frame)+

lemma guide_build_render:
  assumes "guide_build env w = (r, w')"
    and "render_calls w' = render_calls w @ [(pkg, guide)]"
    and "generateGuide env pkg guide = Some e"
  shows "r = None \<and> console w' = console w @ [e] \<and> done_calls w' = Suc (done_calls w)"
  using assms(1)
proof (cases rule: guide_build_cases)
  case (rendered files0 pkg' idx rest guide0 w1 guide' w2)
  from load_fragments_frame [OF rendered(5)] import_module_frame [OF rendered(4)]
  have fr: "render_calls w2 = render_calls w" "console w2 = console w"
    "done_calls w2 = done_calls w" by simp_all
  with rendered(7) assms(2) have "pkg' = pkg" "guide' = guide" by simp_all
  with rendered(6,7) fr assms(3) show ?thesis by simp
next
  case (index_fails files0 pkg idx rest e)
  with import_module_frame [OF index_fails(4)] assms(2) show ?thesis by simp
next
  case (fragment_fails files0 pkg idx rest guide0 w1 e)
  with load_fragments_frame [OF fragment_fails(5)] import_module_frame [OF fragment_fails(4)]
    assms(2) show ?thesis by simp
qed (use assms(2) in auto)

lemma guide_route_run:
  assumes "guide_build env (v\<lparr>trace := trace v @ [Started GuideBuild]\<rparr>) = (r, u)"
  shows "run env (Series [Leaf GuideBuild, Leaf Reload]) v =
     (case r of
        Some e \<Rightarrow> (Some e, u\<lparr>trace := trace u @ [Failed GuideBuild e]\<rparr>)
      | None \<Rightarrow> (None, u\<lparr>trace := trace u @ [Finished GuideBuild, Started Reload, Finished Reload],
                         reloads := Suc (reloads u)\<rparr>))"
  using assms by (cases r) (simp_all add: run_leaf_def task_body_def)

section \<open>Fresh imports\<close>

lemma import_module_fresh:
  assumes "map_of (cache w) (path, now env (ticks w)) = None"
  shows "import_module env path w =
    (modules env path,
     w\<lparr>ticks := Suc (ticks w),
       imported := imported w @ [((path, now env (ticks w)), modules env path)],
       cache := cache w @ [((path, now env (ticks w)), modules env path)]\<rparr>)"
  using assms by (simp add: import_module_def Let_def)

lemma load_fragments_fresh:
  assumes "distinct (gspec # import_specs env (ticks w) fs)"
    and "list_all (\<lambda>s. map_of (cache w) s = None) (import_specs env (ticks w) fs)"
  shows "fst (load_fragments env gspec fs guide w) = merge_fragments (modules env) fs guide"
  using assms
proof (induction fs arbitrary: guide w)
  case Nil
  then show ?case by simp
next
  case (Cons f fs)
  let ?spec = "(''../'' @ f, now env (ticks w))"
  from Cons.prems have fr: "map_of (cache w) ?spec = None" by simp
  note im = import_module_fresh [OF fr]
  show ?case
  proof (cases "modules env (''../'' @ f)")
    case (Inl e)
    with im show ?thesis by simp
  next
    case (Inr v)
    show ?thesis
    proof (cases "set_prop guide (key_of f) v")
      case (Inl e)
      with im Inr show ?thesis by simp
    next
      case sp: (Inr guide')
      let ?w1 = "store_guide gspec guide'
         (w\<lparr>ticks := Suc (ticks w),
            imported := imported w @ [(?spec, modules env (''../'' @ f))],
            cache := cache w @ [(?spec, modules env (''../'' @ f))]\<rparr>)"
      have t: "ticks ?w1 = Suc (ticks w)" by (simp add: store_guide_def)
      have d: "distinct (gspec # import_specs env (ticks ?w1) fs)"
        using Cons.prems(1) t by simp
      have c: "list_all (\<lambda>s. map_of (cache ?w1) s = None) (import_specs env (ticks ?w1) fs)"
        unfolding list_all_iff
      proof
        fix s assume s: "s \<in> set (import_specs env (ticks ?w1) fs)"
        with Cons.prems t have "s \<noteq> gspec" "s \<noteq> ?spec" "map_of (cache w) s = None"
          by (auto simp: list_all_iff)
        then show "map_of (cache ?w1) s = None"
          by (simp add: store_guide_def AList.update_conv')
      qed
      from Cons.IH [OF d c, of guide'] im Inr sp show ?thesis by simp
    qed
  qed
qed

lemma findIndex_none: "\<forall>x\<in>set xs. \<not> P x \<Longrightarrow> findIndex P xs = - 1"
  by (induction xs) (auto simp: Let_def)

lemma findIndex_found:
  "\<forall>x\<in>set pre. \<not> P x \<Longrightarrow> P y \<Longrightarrow> findIndex P (pre @ y # post) = int (length pre)"
  by (induction pre) (auto simp: Let_def)

lemma split_index_found:
  assumes "\<forall>f\<in>set pre. \<not> is_index f" and "is_index idx"
  shows "split_index (pre @ idx # post) = (Some idx, pre @ post)"
proof -
  have n: "nat (int (length pre) + 1) = Suc (length pre)" by simp
  from findIndex_found [of pre is_index idx post, OF assms]
  show ?thesis by (simp add: split_index_def splice_js_def n)
qed

lemma split_index_none:
  assumes "files0 \<noteq> []" and "\<forall>f\<in>set files0. \<not> is_index f"
  shows "split_index files0 = (Some (last files0), butlast files0)"
proof -
  from assms(1) obtain ys y where f: "files0 = ys @ [y]" by (cases files0 rule: rev_cases) auto
  from findIndex_none [OF assms(2)] show ?thesis
    by (simp add: split_index_def splice_js_def f)
qed

lemma load_fragments_fresh_log:
  assumes "distinct (gspec # import_specs env (ticks w) fs)"
    and "list_all (\<lambda>s. map_of (cache w) s = None) (import_specs env (ticks w) fs)"
  shows "\<exists>new. imported (snd (load_fragments env gspec fs guide w)) = imported w @ new
           \<and> list_all (\<lambda>x. snd x = modules env (fst (fst x))) new"
  using assms
proof (induction fs arbitrary: guide w)
  case Nil
  then show ?case by simp
next
  case (Cons f fs)
  let ?spec = "(''../'' @ f, now env (ticks w))"
  from Cons.prems have fr: "map_of (cache w) ?spec = None" by simp
  note im = import_module_fresh [OF fr]
  show ?case
  proof (cases "modules env (''../'' @ f)")
    case (Inl e)
    with im show ?thesis by simp
  next
    case (Inr v)
    show ?thesis
    proof (cases "set_prop guide (key_of f) v")
      case (Inl e)
      with im Inr show ?thesis by simp
    next
      case sp: (Inr guide')
      let ?w1 = "store_guide gspec guide'
         (w\<lparr>ticks := Suc (ticks w),
            imported := imported w @ [(?spec, modules env (''../'' @ f))],
            cache := cache w @ [(?spec, modules env (''../'' @ f))]\<rparr>)"
      have t: "ticks ?w1 = Suc (ticks w)" by (simp add: store_guide_def)
      have d: "distinct (gspec # import_specs env (ticks ?w1) fs)"
        using Cons.prems(1) t by simp
      have c: "list_all (\<lambda>s. map_of (cache ?w1) s = None) (import_specs env (ticks ?w1) fs)"
        unfolding list_all_iff
      proof
        fix s assume s: "s \<in> set (import_specs env (ticks ?w1) fs)"
        with Cons.prems t have "s \<noteq> gspec" "s \<noteq> ?spec" "map_of (cache w) s = None"
          by (auto simp: list_all_iff)
        then show "map_of (cache ?w1) s = None"
          by (simp add: store_guide_def AList.update_conv')
      qed
      from Cons.IH [OF d c, of guide'] obtain new where
        "imported (snd (load_fragments env gspec fs guide' ?w1)) = imported ?w1 @ new"
        "list_all (\<lambda>x. snd x = modules env (fst (fst x))) new" by blast
      with im Inr sp show ?thesis by (simp add: store_guide_def)
    qed
  qed
qed

lemma fresh_imports_Cons:
  assumes "fresh_imports env w (idx # rest)"
  shows "map_of (cache w) (''../'' @ idx, now env (ticks w)) = None"
    and "distinct ((''../'' @ idx, now env (ticks w)) # import_specs env (Suc (ticks w)) rest)"
    and "list_all (\<lambda>s. map_of (cache w) s = None) (import_specs env (Suc (ticks w)) rest)"
  using assms by (simp_all add: fresh_imports_def)

lemma fresh_after_index:
  assumes "fresh_imports env w (idx # rest)"
  defines "w1 \<equiv> w\<lparr>ticks := Suc (ticks w),
       imported := imported w @ [((''../'' @ idx, now env (ticks w)), modules env (''../'' @ idx))],
       cache := cache w @ [((''../'' @ idx, now env (ticks w)), modules env (''../'' @ idx))]\<rparr>"
  shows "import_module env (''../'' @ idx) w = (modules env (''../'' @ idx), w1)"
    and "distinct ((''../'' @ idx, now env (ticks w)) # import_specs env (ticks w1) rest)"
    and "list_all (\<lambda>s. map_of (cache w1) s = None) (import_specs env (ticks w1) rest)"
proof -
  note f = fresh_imports_Cons [OF assms(1)]
  show "import_module env (''../'' @ idx) w = (modules env (''../'' @ idx), w1)"
    unfolding w1_def by (rule import_module_fresh [OF f(1)])
  show "distinct ((''../'' @ idx, now env (ticks w)) # import_specs env (ticks w1) rest)"
    using f(2) by (simp add: w1_def)
  show "list_all (\<lambda>s. map_of (cache w1) s = None) (import_specs env (ticks w1) rest)"
    using f(2,3) by (auto simp: w1_def list_all_iff)
qed

lemma guide_build_fresh:
  assumes m: "matched env = Inr files0" and sp: "split_index files0 = (Some idx, rest)"
    and fr: "fresh_imports env w (idx # rest)" and p: "package_json env = Inr pkg"
  shows "fst (guide_build env w) =
     (case modules env (''../'' @ idx) of
        Inl e \<Rightarrow> Some e
      | Inr g0 \<Rightarrow> (case merge_fragments (modules env) rest g0 of
                    Inl e \<Rightarrow> Some e | Inr g \<Rightarrow> None))"
    and "render_calls (snd (guide_build env w)) =
     (case modules env (''../'' @ idx) of
        Inl e \<Rightarrow> render_calls w
      | Inr g0 \<Rightarrow> (case merge_fragments (modules env) rest g0 of
                    Inl e \<Rightarrow> render_calls w | Inr g \<Rightarrow> render_calls w @ [(pkg, g)]))"
    and "\<exists>new. imported (snd (guide_build env w)) = imported w @ new
           \<and> list_all (\<lambda>x. snd x = modules env (fst (fst x))) new"
proof -
  define w1 where "w1 = w\<lparr>ticks := Suc (ticks w),
       imported := imported w @ [((''../'' @ idx, now env (ticks w)), modules env (''../'' @ idx))],
       cache := cache w @ [((''../'' @ idx, now env (ticks w)), modules env (''../'' @ idx))]\<rparr>"
  note a = fresh_after_index [OF fr, folded w1_def]
  have iw1: "imported w1 = imported w @ [((''../'' @ idx, now env (ticks w)), modules env (''../'' @ idx))]"
    and rw1: "render_calls w1 = render_calls w"
    by (simp_all add: w1_def)
  let ?gspec = "(''../'' @ idx, now env (ticks w))"
  have all:
    "fst (guide_build env w) =
     (case modules env (''../'' @ idx) of
        Inl e \<Rightarrow> Some e
      | Inr g0 \<Rightarrow> (case merge_fragments (modules env) rest g0 of
                    Inl e \<Rightarrow> Some e | Inr g \<Rightarrow> None))
    \<and> render_calls (snd (guide_build env w)) =
     (case modules env (''../'' @ idx) of
        Inl e \<Rightarrow> render_calls w
      | Inr g0 \<Rightarrow> (case merge_fragments (modules env) rest g0 of
                    Inl e \<Rightarrow> render_calls w | Inr g \<Rightarrow> render_calls w @ [(pkg, g)]))
    \<and> (\<exists>new. imported (snd (guide_build env w)) = imported w @ new
           \<and> list_all (\<lambda>x. snd x = modules env (fst (fst x))) new)"
  proof (cases "modules env (''../'' @ idx)")
    case (Inl e)
    with a(1) m sp p have "guide_build env w = (Some e, w1)" by (simp add: guide_build_def)
    with Inl iw1 rw1 show ?thesis by simp
  next
    case (Inr g0)
    obtain r2 w2 where l: "load_fragments env ?gspec rest g0 w1 = (r2, w2)"
      by (cases "load_fragments env ?gspec rest g0 w1")
    from load_fragments_fresh [OF a(2,3), of g0] l
    have r2: "r2 = merge_fragments (modules env) rest g0" by simp
    from load_fragments_fresh_log [OF a(2,3), of g0] l obtain new where
      new: "imported w2 = imported w1 @ new" "list_all (\<lambda>x. snd x = modules env (fst (fst x))) new"
      by auto
    from load_fragments_frame [OF l] rw1 have rw2: "render_calls w2 = render_calls w" by simp
    show ?thesis
    proof (cases r2)
      case (Inl e)
      with a(1) m sp p Inr l have "guide_build env w = (Some e, w2)"
        by (simp add: guide_build_def)
      with Inl Inr r2 new iw1 rw2 show ?thesis by simp
    next
      case g: (Inr guide)
      with a(1) m sp p Inr l
      have "fst (guide_build env w) = None"
        "render_calls (snd (guide_build env w)) = render_calls w2 @ [(pkg, guide)]"
        "imported (snd (guide_build env w)) = imported w2"
        by (simp_all add: guide_build_def Let_def split: option.splits)
      with g Inr r2 new iw1 rw2 show ?thesis by simp
    qed
  qed
  from all show "fst (guide_build env w) =
     (case modules env (''../'' @ idx) of
        Inl e \<Rightarrow> Some e
      | Inr g0 \<Rightarrow> (case merge_fragments (modules env) rest g0 of
                    Inl e \<Rightarrow> Some e | Inr g \<Rightarrow> None))" by blast
  from all show "render_calls (snd (guide_build env w)) =
     (case modules env (''../'' @ idx) of
        Inl e \<Rightarrow> render_calls w
      | Inr g0 \<Rightarrow> (case merge_fragments (modules env) rest g0 of
                    Inl e \<Rightarrow> render_calls w | Inr g \<Rightarrow> render_calls w @ [(pkg, g)]))" by blast
  from all show "\<exists>new. imported (snd (guide_build env w)) = imported w @ new
           \<and> list_all (\<lambda>x. snd x = modules env (fst (fst x))) new" by blast
qed

lemma guide_build_log_grows:
  assumes "guide_build env w = (r, w')"
  shows "\<exists>new. imported w' = imported w @ new"
  using assms
proof (cases rule: guide_build_cases)
  case (index_fails files0 pkg idx rest e)
  from import_module_imported [OF index_fails(4)] show ?thesis by simp
next
  case (fragment_fails files0 pkg idx rest guide0 w1 e)
  from load_fragments_imported [OF fragment_fails(5)]
    import_module_imported [OF fragment_fails(4)] show ?thesis by auto
next
  case (rendered files0 pkg idx rest guide0 w1 guide w2)
  from load_fragments_imported [OF rendered(5)]
    import_module_imported [OF rendered(4)] rendered(7) show ?thesis by auto
qed auto

lemma guide_route_cases:
  assumes "on_change env (watch_build no_watchers) ConfigGuide v = Some (q, v')"
  obtains u where "guide_build env (v\<lparr>trace := trace v @ [Started GuideBuild]\<rparr>) = (q, u)"
    and "q = None \<Longrightarrow>
           v' = u\<lparr>trace := trace u @ [Finished GuideBuild, Started Reload, Finished Reload],
                  reloads := Suc (reloads u)\<rparr>"
    and "\<And>e. q = Some e \<Longrightarrow> v' = u\<lparr>trace := trace u @ [Failed GuideBuild e]\<rparr>"
proof -
  obtain r u where g: "guide_build env (v\<lparr>trace := trace v @ [Started GuideBuild]\<rparr>) = (r, u)"
    by (cases "guide_build env (v\<lparr>trace := trace v @ [Started GuideBuild]\<rparr>)")
  from assms have "run env (Series [Leaf GuideBuild, Leaf Reload]) v = (q, v')"
    by (simp add: on_change_def watch_routes)
  with guide_route_run [OF g] that [of u] g show thesis
    by (cases r) auto
qed

section \<open>Assignments to the guide object\<close>

lemma set_prop_other:
  "set_prop g k' v = Inr g' \<Longrightarrow> k \<noteq> k' \<Longrightarrow> get_prop g' k = get_prop g k"
  by (cases g) (auto simp: AList.update_conv' split: if_splits jsval.splits)

lemma set_prop_same:
  "set_prop g k v = Inr g' \<Longrightarrow> k \<noteq> ''__proto__'' \<Longrightarrow> get_prop g' k = Some v"
  by (cases g) (auto simp: AList.update_conv' split: if_splits)

lemma set_prop_keys:
  assumes "set_prop g k v = Inr g'"
  shows "set (own_keys g') - {''__proto__''} = (set (own_keys g) \<union> {k}) - {''__proto__''}"
proof (cases g)
  case (JObj ps pr)
  with assms consider (proto) pr' where "k = ''__proto__''" "g' = JObj ps pr'"
    | (own) "g' = JObj (AList.update k v ps) pr"
    by (auto split: if_splits jsval.splits)
  then show ?thesis
  proof cases
    case proto
    with JObj show ?thesis by auto
  next
    case own
    have "set (map fst (AList.update k v ps)) = {k} \<union> set (map fst ps)"
      using AList.dom_update [of k v ps] by simp
    with own JObj show ?thesis by auto
  qed
qed (use assms in auto)

lemma assign_all_other:
  "assign_all g kvs = Inr agg \<Longrightarrow> k \<notin> fst ` set kvs \<Longrightarrow> get_prop agg k = get_prop g k"
proof (induction kvs arbitrary: g)
  case Nil
  then show ?case by simp
next
  case (Cons kv kvs)
  obtain k' v where kv: "kv = (k', v)" by (cases kv)
  with Cons.prems obtain g' where s: "set_prop g k' v = Inr g'" "assign_all g' kvs = Inr agg"
    by (auto split: sum.splits)
  from Cons.prems(2) kv have "k \<noteq> k'" "k \<notin> fst ` set kvs" by auto
  with Cons.IH [OF s(2)] set_prop_other [OF s(1)] show ?case by simp
qed

lemma assign_all_last_wins:
  "assign_all g (zip ks vs) = Inr agg \<Longrightarrow> length vs = length ks \<Longrightarrow> j < length ks
     \<Longrightarrow> ks ! j \<notin> set (drop (Suc j) ks) \<Longrightarrow> ks ! j \<noteq> ''__proto__''
     \<Longrightarrow> get_prop agg (ks ! j) = Some (vs ! j)"
proof (induction ks arbitrary: g vs j)
  case Nil
  then show ?case by simp
next
  case (Cons k ks)
  then obtain v vs' where vs: "vs = v # vs'" by (cases vs) auto
  with Cons.prems obtain g' where
    s: "set_prop g k v = Inr g'" "assign_all g' (zip ks vs') = Inr agg"
    by (auto split: sum.splits)
  show ?case
  proof (cases j)
    case 0
    with Cons.prems vs have n: "k \<notin> fst ` set (zip ks vs')" "k \<noteq> ''__proto__''"
      by (auto dest: set_zip_leftD)
    from assign_all_other [OF s(2) n(1)] set_prop_same [OF s(1) n(2)] 0 vs
    show ?thesis by simp
  next
    case (Suc i)
    have "get_prop agg (ks ! i) = Some (vs' ! i)"
      by (rule Cons.IH [OF s(2)]) (use Cons.prems vs Suc in auto)
    with vs Suc show ?thesis by simp
  qed
qed

lemma assign_all_keys:
  "assign_all g (zip ks vs) = Inr agg \<Longrightarrow> length vs = length ks
     \<Longrightarrow> set (own_keys agg) - {''__proto__''} = (set (own_keys g) \<union> set ks) - {''__proto__''}"
proof (induction ks arbitrary: g vs)
  case Nil
  then show ?case by simp
next
  case (Cons k ks)
  then obtain v vs' where vs: "vs = v # vs'" by (cases vs) auto
  with Cons.prems obtain g' where
    s: "set_prop g k v = Inr g'" "assign_all g' (zip ks vs') = Inr agg"
    by (auto split: sum.splits)
  from Cons.prems vs have "length vs' = length ks" by simp
  from Cons.IH [OF s(2) this] set_prop_keys [OF s(1)] show ?case by auto
qed

lemma load_fragments_success:
  assumes "load_fragments env gspec fs guide w = (Inr agg, w')"
  shows "\<exists>vs. length vs = length fs
           \<and> imported w' = imported w @ zip (import_specs env (ticks w) fs) (map Inr vs)
           \<and> assign_all guide (zip (map key_of fs) vs) = Inr agg"
  using assms
proof (induction fs arbitrary: guide w)
  case Nil
  then show ?case by simp
next
  case (Cons f fs)
  obtain r1 w1 where i: "import_module env (''../'' @ f) w = (r1, w1)"
    by (cases "import_module env (''../'' @ f) w")
  note im = import_module_imported [OF i] import_module_frame(6) [OF i]
  from Cons.prems i obtain v where v: "r1 = Inr v" by (cases r1) auto
  from Cons.prems i v obtain guide' where
    sp: "set_prop guide (key_of f) v = Inr guide'"
    by (cases "set_prop guide (key_of f) v") auto
  from Cons.prems i v sp
  have "load_fragments env gspec fs guide' (store_guide gspec guide' w1) = (Inr agg, w')"
    by simp
  from Cons.IH [OF this] obtain vs where vs: "length vs = length fs"
    "imported w' = imported (store_guide gspec guide' w1)
        @ zip (import_specs env (ticks (store_guide gspec guide' w1)) fs) (map Inr vs)"
    "assign_all guide' (zip (map key_of fs) vs) = Inr agg"
    by blast
  from vs im v sp show ?case
    by (intro exI [of _ "v # vs"]) (simp add: store_guide_frame)
qed

lemma completed_build:
  assumes "matched env = Inr files0"
    and "split_index files0 = (Some idx, rest)"
    and "guide_build env w = (None, w')"
  shows "\<exists>pkg guide0 vs agg.
           drop (length (imported w)) (imported w')
             = zip (import_specs env (ticks w) (idx # rest)) (map Inr (guide0 # vs))
         \<and> length vs = length rest
         \<and> render_calls w' = render_calls w @ [(pkg, agg)]
         \<and> assign_all guide0 (zip (map key_of rest) vs) = Inr agg"
  using assms(3)
proof (cases rule: guide_build_cases)
  case (rendered files0' pkg idx' rest' guide0 w1 agg w2)
  with assms(1,2) have eq: "idx' = idx" "rest' = rest" by simp_all
  note i = import_module_imported [OF rendered(4) [unfolded eq]]
    import_module_frame(5,6) [OF rendered(4) [unfolded eq]]
  from load_fragments_success [OF rendered(5) [unfolded eq]] obtain vs where
    vs: "length vs = length rest"
    "imported w2 = imported w1 @ zip (import_specs env (ticks w1) rest) (map Inr vs)"
    "assign_all guide0 (zip (map key_of rest) vs) = Inr agg" by blast
  from load_fragments_frame [OF rendered(5)] i(2)
  have rc: "render_calls w2 = render_calls w" by simp
  have 1: "drop (length (imported w)) (imported w')
             = zip (import_specs env (ticks w) (idx # rest)) (map Inr (guide0 # vs))"
    using rendered(7) vs(2) i by simp
  have 2: "render_calls w' = render_calls w @ [(pkg, agg)]"
    using rendered(7) rc by simp
  from 1 2 vs(1,3) show ?thesis by blast
qed simp_all

lemma unassigned_key_kept:
  assumes "assign_all guide0 (zip (map key_of rest) vs) = Inr agg"
    and "k \<notin> set (map key_of rest)"
  shows "get_prop agg k = get_prop guide0 k"
proof -
  from assms(2) have "k \<notin> fst ` set (zip (map key_of rest) vs)"
    by (auto dest: set_zip_leftD)
  from assign_all_other [OF assms(1) this] show ?thesis .
qed

lemma last_assignment_wins:
  assumes "assign_all guide0 (zip (map key_of rest) vs) = Inr agg"
    and "length vs = length rest" and "j < length rest"
    and "key_of (rest ! j) \<notin> set (map key_of (drop (Suc j) rest))"
    and "key_of (rest ! j) \<noteq> ''__proto__''"
  shows "get_prop agg (key_of (rest ! j)) = Some (vs ! j)"
proof -
  from assms(3) have j': "j < length (map key_of rest)" by simp
  from assms(3,4) have n': "map key_of rest ! j \<notin> set (drop (Suc j) (map key_of rest))"
    by (simp add: drop_map)
  from assms(2) have l: "length vs = length (map key_of rest)" by simp
  from assms(3,5) have p: "map key_of rest ! j \<noteq> ''__proto__''" by simp
  from assign_all_last_wins [OF assms(1) l j' n' p] assms(3) show ?thesis by simp
qed

lemma first_import_logged:
  assumes "matched env = Inr files0"
    and "split_index files0 = (Some idx, rest)"
    and "package_json env = Inr pkg"
    and "guide_build env w = (r, w')"
  shows "\<exists>x new. drop (length (imported w)) (imported w')
                    = ((''../'' @ idx, now env (ticks w)), x) # new"
  using assms(4)
proof (cases rule: guide_build_cases)
  case (index_fails files0' pkg' idx' rest' e)
  with assms(1,2) have eq: "idx' = idx" by simp
  from import_module_imported [OF index_fails(4) [unfolded eq]] show ?thesis by simp
next
  case (fragment_fails files0' pkg' idx' rest' guide0 w1 e)
  with assms(1,2) have eq: "idx' = idx" by simp
  from load_fragments_imported [OF fragment_fails(5)]
    import_module_imported [OF fragment_fails(4) [unfolded eq]] show ?thesis by auto
next
  case (rendered files0' pkg' idx' rest' guide0 w1 guide w2)
  with assms(1,2) have eq: "idx' = idx" by simp
  from load_fragments_imported [OF rendered(5)]
    import_module_imported [OF rendered(4) [unfolded eq]] rendered(7) show ?thesis by auto
qed (use assms(1,2,3) in auto)

section \<open>The watch task: reload after a composition\<close>

text \<open>
  Claim C1. A run of the composition of a route registered by the watch task calls reload
  exactly once. As stated, for every route, this fails for the styles route, whose
  composition is the task \<^verbatim>\<open>styles.build\<close> alone. For every other route the
  composition is a series of one build composition without a reload leaf, whatever the
  number of its leaves, followed by reload, and a run that completes successfully calls
  reload exactly once.
\<close>

theorem route_run_reloads_once:
  assumes "(p, n) \<in> set (routes (watch_build no_watchers))"
    and "p \<noteq> SrcStyles"
    and "run env n w = (None, w')"
  shows "reloads w' = Suc (reloads w)
         \<and> (\<exists>c. n = Series [c, Leaf Reload] \<and> Reload \<notin> set (leaves c))"
proof -
  from assms(1,2) obtain c where c: "n = Series [c, Leaf Reload]" "Reload \<notin> set (leaves c)"
    by (auto simp: watch_routes)
  from run_then_reload [OF c(2), of env w] assms(3) c(1)
  have "reloads w' = Suc (reloads w)" by simp
  with c show ?thesis by blast
qed

theorem route_run_reloads_once_witness:
  "fst (run demo_env (Series [Parallel [Leaf ViewsBuild, Leaf GuideBuild], Leaf Reload]) idle) = None
   \<and> reloads (snd (run demo_env (Series [Parallel [Leaf ViewsBuild, Leaf GuideBuild], Leaf Reload]) idle)) = 1"
proof -
  let ?n = "Series [Parallel [Leaf ViewsBuild, Leaf GuideBuild], Leaf Reload]"
  have h1: "(SrcViews0, ?n) \<in> set (routes (watch_build no_watchers))"
    by (simp add: watch_routes)
  have h2: "SrcViews0 \<noteq> SrcStyles" by simp
  have h3: "fst (run demo_env ?n idle) = None" by code_simp
  then have h3': "run demo_env ?n idle = (None, snd (run demo_env ?n idle))"
    by (simp add: prod_eq_iff)
  from route_run_reloads_once [OF h1 h2 h3'] h3 show ?thesis by (simp add: idle_def)
qed

theorem styles_route_never_reloads_counterexample:
  "(SrcStyles, Leaf StylesBuild) \<in> set (routes (watch_build no_watchers))
   \<and> fst (run demo_env (Leaf StylesBuild) idle) = None
   \<and> reloads (snd (run demo_env (Leaf StylesBuild) idle)) = 0"
  by code_simp

text \<open>
  Claim C2. A change of a styles source runs a series of styles build steps followed by
  one reload. In the source the styles route is registered with \<^verbatim>\<open>styles.build\<close>
  alone: a change runs that one task once, the trace holds its start and its completion
  or failure and nothing else, and the state is otherwise unchanged, so reload is not
  called.
\<close>

theorem styles_route_is_single_task:
  "on_change env (watch_build no_watchers) SrcStyles w =
     Some (outcome env StylesBuild,
           w\<lparr>trace := trace w @ [Started StylesBuild,
                (case outcome env StylesBuild of
                   None \<Rightarrow> Finished StylesBuild | Some e \<Rightarrow> Failed StylesBuild e)]\<rparr>)"
  by (simp add: on_change_def watch_routes run_leaf_def task_body_def split: option.splits)

theorem styles_route_is_single_task_witness:
  "on_change fonts_fail_env (watch_build no_watchers) SrcStyles idle =
     Some (None, idle\<lparr>trace := [Started StylesBuild, Finished StylesBuild]\<rparr>)"
  using styles_route_is_single_task [of fonts_fail_env idle]
  by (simp add: fonts_fail_env_def fonts_fail_def idle_def)

theorem styles_change_no_series_no_reload_counterexample:
  "map_of (routes (watch_build no_watchers)) SrcStyles = Some (Leaf StylesBuild)
   \<and> on_change demo_env (watch_build no_watchers) SrcStyles idle =
       Some (None, idle\<lparr>trace := [Started StylesBuild, Finished StylesBuild]\<rparr>)
   \<and> reloads (idle\<lparr>trace := [Started StylesBuild, Finished StylesBuild]\<rparr>) = 0"
  by code_simp

text \<open>
  Claim C3. Reload is called once per run whether the run succeeded or failed. In the
  source reload is the last child of a series, so for every route but the styles route it
  is called once when the build part succeeds and not at all when a build step fails.
\<close>

theorem reload_only_after_successful_build:
  assumes "(p, n) \<in> set (routes (watch_build no_watchers))"
    and "p \<noteq> SrcStyles"
    and "run env n w = (r, w')"
  shows "reloads w' = (if r = None then Suc (reloads w) else reloads w)"
proof -
  from assms(1,2) obtain c where c: "n = Series [c, Leaf Reload]" "Reload \<notin> set (leaves c)"
    by (auto simp: watch_routes)
  from run_then_reload [OF c(2), of env w] assms(3) c(1) show ?thesis by simp
qed

theorem reload_only_after_successful_build_witness:
  "run fonts_fail_env (Series [Leaf FontsBuild, Leaf Reload]) idle =
     (Some (Thrown ''fonts failed''),
      idle\<lparr>trace := [Started FontsBuild, Failed FontsBuild (Thrown ''fonts failed'')]\<rparr>)
   \<and> reloads (idle\<lparr>trace := [Started FontsBuild, Failed FontsBuild (Thrown ''fonts failed'')]\<rparr>)
       = reloads idle"
proof -
  let ?n = "Series [Leaf FontsBuild, Leaf Reload]"
  let ?w' = "idle\<lparr>trace := [Started FontsBuild, Failed FontsBuild (Thrown ''fonts failed'')]\<rparr>"
  have h1: "(SrcFonts, ?n) \<in> set (routes (watch_build no_watchers))"
    by (simp add: watch_routes)
  have h2: "SrcFonts \<noteq> SrcStyles" by simp
  have h3: "run fonts_fail_env ?n idle = (Some (Thrown ''fonts failed''), ?w')" by code_simp
  from reload_only_after_successful_build [OF h1 h2 h3] h3 show ?thesis by simp
qed

theorem failed_build_suppresses_reload_counterexample:
  "on_change fonts_fail_env (watch_build no_watchers) SrcFonts idle =
     Some (Some (Thrown ''fonts failed''),
           idle\<lparr>trace := [Started FontsBuild, Failed FontsBuild (Thrown ''fonts failed'')]\<rparr>)
   \<and> reloads (idle\<lparr>trace := [Started FontsBuild, Failed FontsBuild (Thrown ''fonts failed'')]\<rparr>) = 0"
  by code_simp

section \<open>Series of leaves\<close>

text \<open>
  Claim C7. In a series of leaves, leaf \<open>i + 1\<close> starts only after leaf \<open>i\<close> has
  signalled completion; when leaf \<open>k\<close> fails no later leaf starts and the series fails
  with the error of leaf \<open>k\<close>. The events a run adds to the trace are the start and the
  completion of the first \<open>k\<close> leaves, in order and not interleaved, followed, when the
  run fails, by the start and the failure of leaf \<open>k\<close> with the error of the run, and by
  nothing else; a run that succeeds has run all leaves.
\<close>

theorem series_of_leaves_in_order:
  assumes "run env (Series (map Leaf ts)) w = (r, w')"
  shows "\<exists>k. trace w' = trace w @ concat (map (\<lambda>t. [Started t, Finished t]) (take k ts))
                 @ (case r of None \<Rightarrow> [] | Some e \<Rightarrow> [Started (ts ! k), Failed (ts ! k) e])
            \<and> (case r of None \<Rightarrow> k = length ts | Some e \<Rightarrow> k < length ts)"
proof -
  have "run_series env (map Leaf ts) w = (r, w') \<Longrightarrow> ?thesis"
  proof (induction ts arbitrary: w)
    case Nil
    then show ?case by auto
  next
    case (Cons t ts)
    obtain r1 w1 where l: "run_leaf env t w = (r1, w1)" by (cases "run_leaf env t w")
    note tr = run_leaf_trace [OF l]
    show ?case
    proof (cases r1)
      case None
      with Cons.prems l have "run_series env (map Leaf ts) w1 = (r, w')" by simp
      from Cons.IH [OF this] obtain k where
        k: "trace w' = trace w1 @ concat (map (\<lambda>t. [Started t, Finished t]) (take k ts))
                 @ (case r of None \<Rightarrow> [] | Some e \<Rightarrow> [Started (ts ! k), Failed (ts ! k) e])"
           "(case r of None \<Rightarrow> k = length ts | Some e \<Rightarrow> k < length ts)"
        by blast
      from k tr None show ?thesis
        by (intro exI [of _ "Suc k"]) (auto split: option.splits)
    next
      case (Some e)
      with Cons.prems l have "r = Some e" "w' = w1" by simp_all
      with tr Some show ?thesis by (intro exI [of _ 0]) simp
    qed
  qed
  with assms show ?thesis by simp
qed

theorem series_of_leaves_in_order_witness:
  "run fonts_fail_env (Series (map Leaf [FontsBuild, Reload])) idle =
     (Some (Thrown ''fonts failed''),
      idle\<lparr>trace := [Started FontsBuild, Failed FontsBuild (Thrown ''fonts failed'')]\<rparr>)
   \<and> (\<exists>k. trace (idle\<lparr>trace := [Started FontsBuild, Failed FontsBuild (Thrown ''fonts failed'')]\<rparr>)
            = trace idle @ concat (map (\<lambda>t. [Started t, Finished t]) (take k [FontsBuild, Reload]))
                @ [Started ([FontsBuild, Reload] ! k), Failed ([FontsBuild, Reload] ! k) (Thrown ''fonts failed'')]
          \<and> k < length [FontsBuild, Reload])"
proof -
  let ?w' = "idle\<lparr>trace := [Started FontsBuild, Failed FontsBuild (Thrown ''fonts failed'')]\<rparr>"
  have h: "run fonts_fail_env (Series (map Leaf [FontsBuild, Reload])) idle
             = (Some (Thrown ''fonts failed''), ?w')" by code_simp
  from series_of_leaves_in_order [OF h] h show ?thesis by simp
qed

section \<open>The guide task: the aggregate\<close>

text \<open>
  Claim C4. In an invocation of the guide task over a matched list with a file whose path
  contains \<^verbatim>\<open>index\<close>, the first such file is taken out of the list and imported first,
  and the default export this import yields is the base of the aggregate handed to the
  render collaborator; every other matched file is imported and assigned to the base
  under its key, the base name without extension. As stated, for every other file, this
  fails for a file whose key is \<^verbatim>\<open>__proto__\<close>: the assignment reaches the prototype
  accessor and creates no property. In every invocation that completes, the aggregate is
  the base after the assignments in list order; apart from \<^verbatim>\<open>__proto__\<close> its keys are
  those of the base and the keys of the other files, a property of the base that no
  file's key names is kept, and when the keys of the files are distinct each key other
  than \<^verbatim>\<open>__proto__\<close> holds the export of its file.
\<close>

theorem index_is_base_others_are_keys:
  assumes "matched env = Inr (pre @ idx # post)"
    and "\<forall>f\<in>set pre. \<not> is_index f"
    and "is_index idx"
    and "guide_build env w = (None, w')"
  shows "\<exists>pkg guide0 vs agg.
           split_index (pre @ idx # post) = (Some idx, pre @ post)
         \<and> drop (length (imported w)) (imported w')
             = zip (import_specs env (ticks w) (idx # pre @ post)) (map Inr (guide0 # vs))
         \<and> length vs = length (pre @ post)
         \<and> render_calls w' = render_calls w @ [(pkg, agg)]
         \<and> assign_all guide0 (zip (map key_of (pre @ post)) vs) = Inr agg
         \<and> set (own_keys agg) - {''__proto__''}
             = (set (own_keys guide0) \<union> set (map key_of (pre @ post))) - {''__proto__''}
         \<and> (\<forall>k. k \<notin> set (map key_of (pre @ post)) \<longrightarrow> get_prop agg k = get_prop guide0 k)
         \<and> (distinct (map key_of (pre @ post))
              \<longrightarrow> (\<forall>j<length (pre @ post). key_of ((pre @ post) ! j) \<noteq> ''__proto__''
                     \<longrightarrow> get_prop agg (key_of ((pre @ post) ! j)) = Some (vs ! j)))"
proof -
  define rest where "rest = pre @ post"
  note sp = split_index_found [OF assms(2,3), of post, folded rest_def]
  from completed_build [OF assms(1) sp assms(4)] obtain pkg guide0 vs agg where
    c: "drop (length (imported w)) (imported w')
          = zip (import_specs env (ticks w) (idx # rest)) (map Inr (guide0 # vs))"
    "length vs = length rest"
    "render_calls w' = render_calls w @ [(pkg, agg)]"
    "assign_all guide0 (zip (map key_of rest) vs) = Inr agg" by blast
  from c(2) have l: "length vs = length (map key_of rest)" by simp
  note k1 = assign_all_keys [OF c(4) l]
  have k2: "\<forall>k. k \<notin> set (map key_of rest) \<longrightarrow> get_prop agg k = get_prop guide0 k"
    using unassigned_key_kept [OF c(4)] by blast
  have k3: "distinct (map key_of rest)
              \<longrightarrow> (\<forall>j<length rest. key_of (rest ! j) \<noteq> ''__proto__''
                     \<longrightarrow> get_prop agg (key_of (rest ! j)) = Some (vs ! j))"
  proof (intro impI allI)
    fix j assume d: "distinct (map key_of rest)" and j: "j < length rest"
      and p: "key_of (rest ! j) \<noteq> ''__proto__''"
    from d j have "map key_of rest ! j \<notin> set (drop (Suc j) (map key_of rest))"
      by (metis Cons_nth_drop_Suc distinct.simps(2) distinct_drop length_map)
    with j have "key_of (rest ! j) \<notin> set (map key_of (drop (Suc j) rest))"
      by (simp add: drop_map)
    from last_assignment_wins [OF c(4,2) j this p]
    show "get_prop agg (key_of (rest ! j)) = Some (vs ! j)" .
  qed
  from sp c k1 k2 k3 show ?thesis unfolding rest_def by blast
qed

theorem index_is_base_others_are_keys_witness:
  "guide_build demo_env idle = (None, snd (guide_build demo_env idle))
   \<and> modules demo_env ''../guide/index.js'' = Inr (JObj [(''title'', JStr ''Guide'')] None)
   \<and> set (own_keys (snd (last (render_calls (snd (guide_build demo_env idle)))))) - {''__proto__''}
        = {''title'', ''button'', ''card''}
   \<and> get_prop (snd (last (render_calls (snd (guide_build demo_env idle))))) ''title''
        = Some (JStr ''Guide'')
   \<and> get_prop (snd (last (render_calls (snd (guide_build demo_env idle))))) ''card''
        = Some (JObj [(''label'', JStr ''card'')] None)"
proof -
  let ?rest = "[''guide/button.js'', ''guide/card.js'']"
  let ?w' = "snd (guide_build demo_env idle)"
  have h1: "matched demo_env = Inr ([] @ ''guide/index.js'' # ?rest)" by code_simp
  have h2: "\<forall>f\<in>set []. \<not> is_index f" by simp
  have h3: "is_index ''guide/index.js''" by code_simp
  have h4: "guide_build demo_env idle = (None, ?w')" by code_simp
  have log: "imported ?w' =
     [((''../guide/index.js'', 1000), Inr (JObj [(''title'', JStr ''Guide'')] None)),
      ((''../guide/button.js'', 1001), Inr (JObj [(''label'', JStr ''v1'')] None)),
      ((''../guide/card.js'', 1002), Inr (JObj [(''label'', JStr ''card'')] None))]"
    by code_simp
  have keys: "map key_of ([] @ ?rest) = [''button'', ''card'']" by code_simp
  have key1: "key_of ''guide/card.js'' = ''card''" by code_simp
  have m: "modules demo_env ''../guide/index.js'' = Inr (JObj [(''title'', JStr ''Guide'')] None)"
    by code_simp
  from index_is_base_others_are_keys [OF h1 h2 h3 h4]
  obtain pkg guide0 vs agg where
    a: "drop (length (imported idle)) (imported ?w')
          = zip (import_specs demo_env (ticks idle) (''guide/index.js'' # [] @ ?rest))
                (map Inr (guide0 # vs))"
    and n: "length vs = length ([] @ ?rest)"
    and c: "render_calls ?w' = render_calls idle @ [(pkg, agg)]"
    and k: "set (own_keys agg) - {''__proto__''}
              = (set (own_keys guide0) \<union> set (map key_of ([] @ ?rest))) - {''__proto__''}"
    and b: "\<forall>k. k \<notin> set (map key_of ([] @ ?rest)) \<longrightarrow> get_prop agg k = get_prop guide0 k"
    and d: "distinct (map key_of ([] @ ?rest))
              \<longrightarrow> (\<forall>j<length ([] @ ?rest). key_of (([] @ ?rest) ! j) \<noteq> ''__proto__''
                     \<longrightarrow> get_prop agg (key_of (([] @ ?rest) ! j)) = Some (vs ! j))"
    by blast
  from n obtain x y where vs: "vs = [x, y]"
    by (cases vs; cases "tl vs") auto
  from a log vs have g0: "guide0 = JObj [(''title'', JStr ''Guide'')] None"
    and y: "y = JObj [(''label'', JStr ''card'')] None" by (simp_all add: idle_def)
  from k g0 have k': "set (own_keys agg) - {''__proto__''} = {''title'', ''button'', ''card''}"
    unfolding keys by auto
  from b [rule_format, of "''title''"] g0
  have t: "get_prop agg ''title'' = Some (JStr ''Guide'')" unfolding keys by simp
  have "distinct (map key_of ([] @ ?rest))" unfolding keys by simp
  with d have "\<forall>j<length ([] @ ?rest). key_of (([] @ ?rest) ! j) \<noteq> ''__proto__''
                     \<longrightarrow> get_prop agg (key_of (([] @ ?rest) ! j)) = Some (vs ! j)"
    by blast
  from this [rule_format, of 1] key1 have "get_prop agg ''card'' = Some (vs ! 1)" by simp
  with vs y have cd: "get_prop agg ''card'' = Some (JObj [(''label'', JStr ''card'')] None)"
    by simp
  from k' t cd c h4 m show ?thesis by simp
qed

theorem proto_file_is_no_key_counterexample:
  "matched proto_env = Inr [''guide/index.js'', ''guide/__proto__.js'']
   \<and> is_index ''guide/index.js''
   \<and> key_of ''guide/__proto__.js'' = ''__proto__''
   \<and> modules proto_env ''../guide/__proto__.js'' = Inr (JStr ''dropped'')
   \<and> fst (guide_build proto_env idle) = None
   \<and> render_calls (snd (guide_build proto_env idle))
        = [(JObj [(''name'', JStr ''demo'')] None, JObj [(''title'', JStr ''Guide'')] None)]
   \<and> own_keys (JObj [(''title'', JStr ''Guide'')] None) = [''title'']"
  by code_simp

text \<open>
  Claim C10. The fragment files are imported one after the other in the order of the
  matched list, and the aggregate is keyed by base name only: when files share a base
  name, or a base name is a property of the index export, the later assignment
  overwrites the earlier value. As stated, for every base name, this fails for
  \<^verbatim>\<open>__proto__\<close>: the assignment reaches the prototype accessor, and a later assignment
  of a primitive leaves the prototype an earlier one has set. The import log of an
  invocation that completes lists the index file and then the other files in list order,
  with successive clock readings, and under a key other than \<^verbatim>\<open>__proto__\<close> the
  aggregate holds the export of the last file with that key.
\<close>

theorem fragments_in_order_last_assignment_wins:
  assumes "matched env = Inr files0"
    and "split_index files0 = (Some idx, rest)"
    and "guide_build env w = (None, w')"
  shows "\<exists>pkg guide0 vs agg.
           drop (length (imported w)) (imported w')
             = zip (import_specs env (ticks w) (idx # rest)) (map Inr (guide0 # vs))
         \<and> length vs = length rest
         \<and> render_calls w' = render_calls w @ [(pkg, agg)]
         \<and> (\<forall>j<length rest. key_of (rest ! j) \<noteq> ''__proto__''
               \<longrightarrow> key_of (rest ! j) \<notin> set (map key_of (drop (Suc j) rest))
               \<longrightarrow> get_prop agg (key_of (rest ! j)) = Some (vs ! j))
         \<and> (\<forall>k. k \<notin> set (map key_of rest) \<longrightarrow> get_prop agg k = get_prop guide0 k)"
proof -
  from completed_build [OF assms] obtain pkg guide0 vs agg where
    c: "drop (length (imported w)) (imported w')
          = zip (import_specs env (ticks w) (idx # rest)) (map Inr (guide0 # vs))"
    "length vs = length rest"
    "render_calls w' = render_calls w @ [(pkg, agg)]"
    "assign_all guide0 (zip (map key_of rest) vs) = Inr agg" by blast
  have 3: "\<forall>j<length rest. key_of (rest ! j) \<noteq> ''__proto__''
               \<longrightarrow> key_of (rest ! j) \<notin> set (map key_of (drop (Suc j) rest))
               \<longrightarrow> get_prop agg (key_of (rest ! j)) = Some (vs ! j)"
    using last_assignment_wins [OF c(4,2)] by blast
  have 4: "\<forall>k. k \<notin> set (map key_of rest) \<longrightarrow> get_prop agg k = get_prop guide0 k"
    using unassigned_key_kept [OF c(4)] by blast
  from c(1,2,3) 3 4 show ?thesis by blast
qed

theorem fragments_in_order_last_assignment_wins_witness:
  "guide_build clash_env idle = (None, snd (guide_build clash_env idle))
   \<and> modules clash_env ''../guide/index.js'' = Inr (JObj [(''button'', JStr ''from index'')] None)
   \<and> modules clash_env ''../guide/a/button.js'' = Inr (JStr ''from a'')
   \<and> get_prop (snd (last (render_calls (snd (guide_build clash_env idle))))) ''button''
        = Some (JStr ''from b'')"
proof -
  let ?fs = "[''guide/a/button.js'', ''guide/index.js'', ''guide/b/button.js'']"
  let ?rest = "[''guide/a/button.js'', ''guide/b/button.js'']"
  let ?w' = "snd (guide_build clash_env idle)"
  have h1: "matched clash_env = Inr ?fs" by code_simp
  have h2: "split_index ?fs = (Some ''guide/index.js'', ?rest)" by code_simp
  have h3: "guide_build clash_env idle = (None, ?w')" by code_simp
  have log: "imported ?w' =
     [((''../guide/index.js'', 1000), Inr (JObj [(''button'', JStr ''from index'')] None)),
      ((''../guide/a/button.js'', 1001), Inr (JStr ''from a'')),
      ((''../guide/b/button.js'', 1002), Inr (JStr ''from b''))]"
    by code_simp
  have keys: "key_of (?rest ! 1) = ''button''" "map key_of (drop (Suc 1) ?rest) = []"
    by code_simp+
  have m: "modules clash_env ''../guide/index.js'' = Inr (JObj [(''button'', JStr ''from index'')] None)"
    "modules clash_env ''../guide/a/button.js'' = Inr (JStr ''from a'')"
    by code_simp+
  from fragments_in_order_last_assignment_wins [OF h1 h2 h3]
  obtain pkg guide0 vs agg where
    a: "drop (length (imported idle)) (imported ?w')
          = zip (import_specs clash_env (ticks idle) (''guide/index.js'' # ?rest))
                (map Inr (guide0 # vs))"
    and b: "length vs = length ?rest"
    and c: "render_calls ?w' = render_calls idle @ [(pkg, agg)]"
    and d: "\<forall>j<length ?rest. key_of (?rest ! j) \<noteq> ''__proto__''
               \<longrightarrow> key_of (?rest ! j) \<notin> set (map key_of (drop (Suc j) ?rest))
               \<longrightarrow> get_prop agg (key_of (?rest ! j)) = Some (vs ! j)"
    by blast
  from b obtain x y where vs: "vs = [x, y]"
    by (cases vs; cases "tl vs") auto
  from a log vs have y: "y = JStr ''from b''" by (simp add: idle_def)
  from d [rule_format, of 1] keys vs y have "get_prop agg ''button'' = Some (JStr ''from b'')"
    by simp
  with c h3 m show ?thesis by simp
qed

theorem later_proto_assignment_ignored_counterexample:
  "matched proto_clash_env
     = Inr [''guide/index.js'', ''guide/a/__proto__.js'', ''guide/b/__proto__.js'']
   \<and> key_of ''guide/a/__proto__.js'' = key_of ''guide/b/__proto__.js''
   \<and> modules proto_clash_env ''../guide/a/__proto__.js'' = Inr (JObj [(''from'', JStr ''a'')] None)
   \<and> modules proto_clash_env ''../guide/b/__proto__.js'' = Inr (JStr ''from b'')
   \<and> fst (guide_build proto_clash_env idle) = None
   \<and> render_calls (snd (guide_build proto_clash_env idle))
        = [(JObj [(''name'', JStr ''demo'')] None,
            JObj [(''title'', JStr ''Guide'')] (Some (JObj [(''from'', JStr ''a'')] None)))]"
  by code_simp

text \<open>
  Claim C8. When no path of the matched list contains \<^verbatim>\<open>index\<close>, \<^verbatim>\<open>findIndex\<close>
  returns -1, \<^verbatim>\<open>splice(-1, 1)\<close> takes the last file out of the list and the default
  export of that file becomes the base of the aggregate, with no error raised. This
  needs a list that is not empty: on the empty list nothing is taken out, the index is
  \<^verbatim>\<open>undefined\<close> and \<^verbatim>\<open>join\<close> throws a TypeError. For a list that is not empty the
  missing index raises no error: \<^verbatim>\<open>join\<close> receives the path of the last file, that
  file is the first one imported once the package file has been read, and in every
  invocation that completes the export this import yields is the base of the aggregate,
  to which the other files are assigned.
\<close>

theorem missing_index_takes_last_file:
  assumes "matched env = Inr files0"
    and "files0 \<noteq> []"
    and "\<forall>f\<in>set files0. \<not> is_index f"
    and "guide_build env w = (r, w')"
  shows "findIndex is_index files0 = - 1
         \<and> splice_js files0 (- 1) 1 = ([last files0], butlast files0)
         \<and> split_index files0 = (Some (last files0), butlast files0)
         \<and> join_parent (fst (split_index files0)) = Inr (''../'' @ last files0)
         \<and> (\<forall>pkg. package_json env = Inr pkg
               \<longrightarrow> (\<exists>x new. drop (length (imported w)) (imported w')
                            = ((''../'' @ last files0, now env (ticks w)), x) # new))
         \<and> (r = None
               \<longrightarrow> (\<exists>pkg guide0 vs agg.
                      drop (length (imported w)) (imported w')
                        = zip (import_specs env (ticks w) (last files0 # butlast files0))
                              (map Inr (guide0 # vs))
                    \<and> length vs = length (butlast files0)
                    \<and> render_calls w' = render_calls w @ [(pkg, agg)]
                    \<and> assign_all guide0 (zip (map key_of (butlast files0)) vs) = Inr agg
                    \<and> (\<forall>k. k \<notin> set (map key_of (butlast files0))
                           \<longrightarrow> get_prop agg k = get_prop guide0 k)))"
proof -
  from assms(2) obtain ys y where f: "files0 = ys @ [y]" by (cases files0 rule: rev_cases) auto
  then have s: "splice_js files0 (- 1) 1 = ([last files0], butlast files0)"
    by (simp add: splice_js_def)
  note sp = split_index_none [OF assms(2,3)]
  have j: "join_parent (fst (split_index files0)) = Inr (''../'' @ last files0)"
    by (simp add: sp)
  have i: "\<forall>pkg. package_json env = Inr pkg
               \<longrightarrow> (\<exists>x new. drop (length (imported w)) (imported w')
                            = ((''../'' @ last files0, now env (ticks w)), x) # new)"
    using first_import_logged [OF assms(1) sp _ assms(4)] by blast
  have c: "r = None
               \<longrightarrow> (\<exists>pkg guide0 vs agg.
                      drop (length (imported w)) (imported w')
                        = zip (import_specs env (ticks w) (last files0 # butlast files0))
                              (map Inr (guide0 # vs))
                    \<and> length vs = length (butlast files0)
                    \<and> render_calls w' = render_calls w @ [(pkg, agg)]
                    \<and> assign_all guide0 (zip (map key_of (butlast files0)) vs) = Inr agg
                    \<and> (\<forall>k. k \<notin> set (map key_of (butlast files0))
                           \<longrightarrow> get_prop agg k = get_prop guide0 k))"
  proof
    assume "r = None"
    with assms(4) have g: "guide_build env w = (None, w')" by simp
    from completed_build [OF assms(1) sp g] obtain pkg guide0 vs agg where
      c: "drop (length (imported w)) (imported w')
            = zip (import_specs env (ticks w) (last files0 # butlast files0))
                  (map Inr (guide0 # vs))"
      "length vs = length (butlast files0)"
      "render_calls w' = render_calls w @ [(pkg, agg)]"
      "assign_all guide0 (zip (map key_of (butlast files0)) vs) = Inr agg" by blast
    have "\<forall>k. k \<notin> set (map key_of (butlast files0)) \<longrightarrow> get_prop agg k = get_prop guide0 k"
      using unassigned_key_kept [OF c(4)] by blast
    with c show "\<exists>pkg guide0 vs agg.
                      drop (length (imported w)) (imported w')
                        = zip (import_specs env (ticks w) (last files0 # butlast files0))
                              (map Inr (guide0 # vs))
                    \<and> length vs = length (butlast files0)
                    \<and> render_calls w' = render_calls w @ [(pkg, agg)]
                    \<and> assign_all guide0 (zip (map key_of (butlast files0)) vs) = Inr agg
                    \<and> (\<forall>k. k \<notin> set (map key_of (butlast files0))
                           \<longrightarrow> get_prop agg k = get_prop guide0 k)" by blast
  qed
  from findIndex_none [OF assms(3)] s sp j i c show ?thesis by blast
qed

theorem missing_index_takes_last_file_witness:
  "findIndex is_index [''guide/button.js'', ''guide/card.js''] = - 1
   \<and> fst (guide_build no_index_env idle) = None
   \<and> modules no_index_env ''../guide/card.js'' = Inr (JObj [(''label'', JStr ''card'')] None)
   \<and> fst (hd (imported (snd (guide_build no_index_env idle)))) = (''../guide/card.js'', 1000)
   \<and> get_prop (snd (last (render_calls (snd (guide_build no_index_env idle))))) ''label''
        = Some (JStr ''card'')"
proof -
  let ?fs = "[''guide/button.js'', ''guide/card.js'']"
  let ?w' = "snd (guide_build no_index_env idle)"
  have h1: "matched no_index_env = Inr ?fs" by (simp add: no_index_env_def)
  have h2: "?fs \<noteq> []" by simp
  have h3: "\<forall>f\<in>set ?fs. \<not> is_index f" by code_simp
  have h4: "guide_build no_index_env idle = (None, ?w')" by code_simp
  have log: "imported ?w' =
     [((''../guide/card.js'', 1000), Inr (JObj [(''label'', JStr ''card'')] None)),
      ((''../guide/button.js'', 1001), Inr (JObj [(''label'', JStr ''v1'')] None))]"
    by code_simp
  have keys: "map key_of (butlast ?fs) = [''button'']" by code_simp
  have m: "modules no_index_env ''../guide/card.js'' = Inr (JObj [(''label'', JStr ''card'')] None)"
    by code_simp
  from missing_index_takes_last_file [OF h1 h2 h3 h4]
  have fi: "findIndex is_index ?fs = - 1"
    and c: "\<exists>pkg guide0 vs agg.
              drop (length (imported idle)) (imported ?w')
                = zip (import_specs no_index_env (ticks idle) (last ?fs # butlast ?fs))
                      (map Inr (guide0 # vs))
            \<and> length vs = length (butlast ?fs)
            \<and> render_calls ?w' = render_calls idle @ [(pkg, agg)]
            \<and> assign_all guide0 (zip (map key_of (butlast ?fs)) vs) = Inr agg
            \<and> (\<forall>k. k \<notin> set (map key_of (butlast ?fs)) \<longrightarrow> get_prop agg k = get_prop guide0 k)"
    by blast+
  from c obtain pkg guide0 vs agg where
    a: "drop (length (imported idle)) (imported ?w')
          = zip (import_specs no_index_env (ticks idle) (last ?fs # butlast ?fs))
                (map Inr (guide0 # vs))"
    and n: "length vs = length (butlast ?fs)"
    and rc: "render_calls ?w' = render_calls idle @ [(pkg, agg)]"
    and b: "\<forall>k. k \<notin> set (map key_of (butlast ?fs)) \<longrightarrow> get_prop agg k = get_prop guide0 k"
    by blast
  from n obtain x where vs: "vs = [x]" by (cases vs) auto
  from a log vs have g0: "guide0 = JObj [(''label'', JStr ''card'')] None"
    by (simp add: idle_def)
  from b [rule_format, of "''label''"] g0
  have "get_prop agg ''label'' = Some (JStr ''card'')" unfolding keys by simp
  with rc have lab: "get_prop (snd (last (render_calls ?w'))) ''label'' = Some (JStr ''card'')"
    by simp
  from h4 have r: "fst (guide_build no_index_env idle) = None" by (metis fst_conv)
  from log have first: "fst (hd (imported ?w')) = (''../guide/card.js'', 1000)" by simp
  from fi r m first lab show ?thesis by blast
qed

theorem no_files_type_error_counterexample:
  "findIndex is_index [] = - 1
   \<and> matched no_files_env = Inr []
   \<and> guide_build no_files_env idle =
       (Some (TypeError ''The path argument must be of type string. Received undefined''), idle)
   \<and> done_calls idle = 0"
  by code_simp

section \<open>The guide task: cache bypass\<close>

text \<open>
  Claim C5. Every load of a later invocation is a fresh evaluation, because the specifier
  carries the current time, so the later invocation never returns a value cached by an
  earlier one. The marker is the reading of a millisecond clock, and two invocations that
  read the same millisecond for a file share the specifier: the later one is then served
  from the module cache. When the specifiers of an invocation differ from each other and
  from those in the cache, every one of its imports settles to what evaluating the file
  gives now, and its outcome and the calls of the render collaborator are those of a
  process whose module cache is empty.
\<close>

theorem distinct_markers_bypass_cache:
  assumes "matched env = Inr files0"
    and "split_index files0 = (Some idx, rest)"
    and "fresh_imports env w (idx # rest)"
  shows "fst (guide_build env w) = fst (guide_build env (w\<lparr>cache := []\<rparr>))
       \<and> render_calls (snd (guide_build env w))
           = render_calls (snd (guide_build env (w\<lparr>cache := []\<rparr>)))
       \<and> list_all (\<lambda>x. snd x = modules env (fst (fst x)))
            (drop (length (imported w)) (imported (snd (guide_build env w))))"
proof (cases "package_json env")
  case (Inl e)
  with assms(1,2) have "\<And>u. guide_build env u = (Some e, u)"
    by (simp add: guide_build_def)
  then show ?thesis by simp
next
  case (Inr pkg)
  let ?w0 = "w\<lparr>cache := []\<rparr>"
  from assms(3) have f0: "fresh_imports env ?w0 (idx # rest)"
    by (simp add: fresh_imports_def list_all_iff)
  note g = guide_build_fresh [OF assms(1,2,3) Inr]
  note g0 = guide_build_fresh(1,2) [OF assms(1,2) f0 Inr]
  from g(3) obtain new where "imported (snd (guide_build env w)) = imported w @ new"
    "list_all (\<lambda>x. snd x = modules env (fst (fst x))) new" by blast
  then have "list_all (\<lambda>x. snd x = modules env (fst (fst x)))
            (drop (length (imported w)) (imported (snd (guide_build env w))))" by simp
  with g(1,2) g0 show ?thesis by (simp split: sum.splits)
qed

theorem distinct_markers_bypass_cache_witness:
  "fresh_imports edited_env (snd (guide_build demo_env idle))
      [''guide/index.js'', ''guide/button.js'', ''guide/card.js'']
   \<and> modules edited_env ''../guide/button.js'' = Inr (JObj [(''label'', JStr ''v2'')] None)
   \<and> fst (guide_build edited_env (snd (guide_build demo_env idle))) = None
   \<and> render_calls (snd (guide_build edited_env (snd (guide_build demo_env idle))))
        = [(JObj [(''name'', JStr ''demo'')] None,
            JObj [(''title'', JStr ''Guide''),
                  (''button'', JObj [(''label'', JStr ''v1'')] None),
                  (''card'', JObj [(''label'', JStr ''card'')] None)] None),
           (JObj [(''name'', JStr ''demo'')] None,
            JObj [(''title'', JStr ''Guide''),
                  (''button'', JObj [(''label'', JStr ''v2'')] None),
                  (''card'', JObj [(''label'', JStr ''card'')] None)] None)]"
proof -
  let ?fs = "[''guide/index.js'', ''guide/button.js'', ''guide/card.js'']"
  let ?w1 = "snd (guide_build demo_env idle)"
  let ?w0 = "?w1\<lparr>cache := []\<rparr>"
  have h1: "matched edited_env = Inr ?fs" by code_simp
  have h2: "split_index ?fs = (Some ''guide/index.js'', [''guide/button.js'', ''guide/card.js''])"
    by code_simp
  have h3: "fresh_imports edited_env ?w1 (''guide/index.js'' # [''guide/button.js'', ''guide/card.js''])"
    by code_simp
  have m: "modules edited_env ''../guide/button.js'' = Inr (JObj [(''label'', JStr ''v2'')] None)"
    by code_simp
  have e: "fst (guide_build edited_env ?w0) = None
     \<and> render_calls (snd (guide_build edited_env ?w0))
        = [(JObj [(''name'', JStr ''demo'')] None,
            JObj [(''title'', JStr ''Guide''),
                  (''button'', JObj [(''label'', JStr ''v1'')] None),
                  (''card'', JObj [(''label'', JStr ''card'')] None)] None),
           (JObj [(''name'', JStr ''demo'')] None,
            JObj [(''title'', JStr ''Guide''),
                  (''button'', JObj [(''label'', JStr ''v2'')] None),
                  (''card'', JObj [(''label'', JStr ''card'')] None)] None)]"
    by code_simp
  from distinct_markers_bypass_cache [OF h1 h2 h3] e h3 m show ?thesis by simp
qed

theorem stuck_clock_serves_cached_fragment_counterexample:
  "modules stuck_edited_env ''../guide/button.js'' = Inr (JObj [(''label'', JStr ''v2'')] None)
   \<and> fst (guide_build stuck_env idle) = None
   \<and> fst (guide_build stuck_edited_env (snd (guide_build stuck_env idle))) = None
   \<and> render_calls (snd (guide_build stuck_edited_env (snd (guide_build stuck_env idle))))
        = [(JObj [(''name'', JStr ''demo'')] None,
            JObj [(''title'', JStr ''Guide''),
                  (''button'', JObj [(''label'', JStr ''v1'')] None),
                  (''card'', JObj [(''label'', JStr ''card'')] None)] None),
           (JObj [(''name'', JStr ''demo'')] None,
            JObj [(''title'', JStr ''Guide''),
                  (''button'', JObj [(''label'', JStr ''v1'')] None),
                  (''card'', JObj [(''label'', JStr ''card'')] None)] None)]"
  by code_simp

section \<open>The guide task: failures\<close>

text \<open>
  Claim C6. When the render collaborator throws, the guide task catches the error, prints
  it and still calls \<^verbatim>\<open>done\<close> exactly once; the promise resolves, so the series of
  the guide route goes on to reload.
\<close>

theorem render_failure_is_logged_not_propagated:
  "(guide_build env w = (r, w') \<and> render_calls w' = render_calls w @ [(pkg, guide)]
      \<and> generateGuide env pkg guide = Some e
    \<longrightarrow> r = None \<and> console w' = console w @ [e] \<and> done_calls w' = Suc (done_calls w))
   \<and> (on_change env (watch_build no_watchers) ConfigGuide v = Some (q, v')
      \<and> render_calls v' = render_calls v @ [(pkg, guide)]
      \<and> generateGuide env pkg guide = Some e
    \<longrightarrow> q = None \<and> console v' = console v @ [e] \<and> done_calls v' = Suc (done_calls v)
        \<and> reloads v' = Suc (reloads v))"
proof (rule conjI; rule impI)
  assume a: "guide_build env w = (r, w') \<and> render_calls w' = render_calls w @ [(pkg, guide)]
      \<and> generateGuide env pkg guide = Some e"
  from guide_build_render [of env w r w' pkg guide e] a
  show "r = None \<and> console w' = console w @ [e] \<and> done_calls w' = Suc (done_calls w)"
    by blast
next
  assume a: "on_change env (watch_build no_watchers) ConfigGuide v = Some (q, v')
      \<and> render_calls v' = render_calls v @ [(pkg, guide)]
      \<and> generateGuide env pkg guide = Some e"
  let ?v = "v\<lparr>trace := trace v @ [Started GuideBuild]\<rparr>"
  from a obtain u where u: "guide_build env ?v = (q, u)"
    "q = None \<Longrightarrow>
       v' = u\<lparr>trace := trace u @ [Finished GuideBuild, Started Reload, Finished Reload],
              reloads := Suc (reloads u)\<rparr>"
    "\<And>e. q = Some e \<Longrightarrow> v' = u\<lparr>trace := trace u @ [Failed GuideBuild e]\<rparr>"
    by (blast elim: guide_route_cases)
  have q: "q = None"
  proof (cases q)
    case (Some e')
    with u(3) have "render_calls v' = render_calls u" by simp
    moreover from guide_build_done(2) [OF u(1)] Some have "render_calls u = render_calls v"
      by simp
    ultimately show ?thesis using a by simp
  qed simp
  with u(2) have v': "render_calls v' = render_calls u" "console v' = console u"
    "done_calls v' = done_calls u" "reloads v' = Suc (reloads u)" by simp_all
  from guide_build_render [of env ?v q u pkg guide e] u(1) a v'
  have "console u = console v @ [e]" "done_calls u = Suc (done_calls v)" by simp_all
  moreover from guide_build_frame(1) [OF u(1)] have "reloads u = reloads v" by simp
  ultimately show "q = None \<and> console v' = console v @ [e] \<and> done_calls v' = Suc (done_calls v)
        \<and> reloads v' = Suc (reloads v)"
    using q v' by simp
qed

theorem render_failure_is_logged_not_propagated_witness:
  "fst (guide_build render_fail_env idle) = None
   \<and> console (snd (guide_build render_fail_env idle)) = [Thrown ''render failed'']
   \<and> done_calls (snd (guide_build render_fail_env idle)) = 1
   \<and> fst (the (on_change render_fail_env (watch_build no_watchers) ConfigGuide idle)) = None
   \<and> reloads (snd (the (on_change render_fail_env (watch_build no_watchers) ConfigGuide idle))) = 1"
proof -
  let ?pkg = "JObj [(''name'', JStr ''demo'')] None"
  let ?guide = "JObj [(''title'', JStr ''Guide''),
                   (''button'', JObj [(''label'', JStr ''v1'')] None),
                   (''card'', JObj [(''label'', JStr ''card'')] None)] None"
  let ?e = "Thrown ''render failed''"
  let ?r = "guide_build render_fail_env idle"
  let ?o = "the (on_change render_fail_env (watch_build no_watchers) ConfigGuide idle)"
  have h1: "guide_build render_fail_env idle = (fst ?r, snd ?r)" by simp
  have h2: "render_calls (snd ?r) = render_calls idle @ [(?pkg, ?guide)]" by code_simp
  have h3: "generateGuide render_fail_env ?pkg ?guide = Some ?e" by code_simp
  have h4: "on_change render_fail_env (watch_build no_watchers) ConfigGuide idle
              = Some (fst ?o, snd ?o)" by code_simp
  have h5: "render_calls (snd ?o) = render_calls idle @ [(?pkg, ?guide)]" by code_simp
  from render_failure_is_logged_not_propagated
    [of render_fail_env idle "fst ?r" "snd ?r" ?pkg ?guide ?e idle "fst ?o" "snd ?o"]
    h1 h2 h3 h4 h5
  show ?thesis by (simp add: idle_def)
qed

text \<open>
  Claim C9. When resolving the file list, reading the package file or importing a
  fragment module throws, the error is the one the task is rejected with, \<^verbatim>\<open>done\<close> is
  not called and the render collaborator is not called; the series of the guide route
  fails and does not reach reload.
\<close>

theorem load_failures_propagate:
  assumes "guide_build env w = (r, w')"
  shows "(matched env = Inl e \<longrightarrow> r = Some e \<and> w' = w)
       \<and> (matched env = Inr files0 \<and> package_json env = Inl e \<longrightarrow> r = Some e \<and> w' = w)
       \<and> ((s, Inl e) \<in> set (drop (length (imported w)) (imported w')) \<longrightarrow> r = Some e)
       \<and> (r \<noteq> None \<longrightarrow> done_calls w' = done_calls w \<and> render_calls w' = render_calls w)
       \<and> (on_change env (watch_build no_watchers) ConfigGuide v = Some (q, v')
            \<and> done_calls v' = done_calls v
          \<longrightarrow> q \<noteq> None \<and> reloads v' = reloads v)"
proof -
  have a: "matched env = Inl e \<longrightarrow> r = Some e \<and> w' = w"
    using assms by (auto simp: guide_build_def)
  have b: "matched env = Inr files0 \<and> package_json env = Inl e \<longrightarrow> r = Some e \<and> w' = w"
    using assms by (auto simp: guide_build_def split: prod.splits)
  have c: "(s, Inl e) \<in> set (drop (length (imported w)) (imported w')) \<longrightarrow> r = Some e"
  proof
    assume i: "(s, Inl e) \<in> set (drop (length (imported w)) (imported w'))"
    from guide_build_log_grows [OF assms] obtain new where
      new: "imported w' = imported w @ new" by blast
    with i have "(s, Inl e) \<in> set new" by simp
    from guide_build_imported [OF assms new this] show "r = Some e" .
  qed
  have d: "r \<noteq> None \<longrightarrow> done_calls w' = done_calls w \<and> render_calls w' = render_calls w"
    using guide_build_done(2) [OF assms] by blast
  have f: "on_change env (watch_build no_watchers) ConfigGuide v = Some (q, v')
            \<and> done_calls v' = done_calls v
          \<longrightarrow> q \<noteq> None \<and> reloads v' = reloads v"
  proof
    assume h: "on_change env (watch_build no_watchers) ConfigGuide v = Some (q, v')
            \<and> done_calls v' = done_calls v"
    let ?v = "v\<lparr>trace := trace v @ [Started GuideBuild]\<rparr>"
    from h obtain u where u: "guide_build env ?v = (q, u)"
      "q = None \<Longrightarrow>
         v' = u\<lparr>trace := trace u @ [Finished GuideBuild, Started Reload, Finished Reload],
                reloads := Suc (reloads u)\<rparr>"
      "\<And>e. q = Some e \<Longrightarrow> v' = u\<lparr>trace := trace u @ [Failed GuideBuild e]\<rparr>"
      by (blast elim: guide_route_cases)
    show "q \<noteq> None \<and> reloads v' = reloads v"
    proof (cases q)
      case None
      with u(2) guide_build_done(1) [OF u(1)] h show ?thesis by simp
    next
      case (Some e')
      with u(3) guide_build_frame(1) [OF u(1)] show ?thesis by simp
    qed
  qed
  from a b c d f show ?thesis by blast
qed

theorem load_failures_propagate_witness:
  "guide_build glob_fail_env idle = (Some (Thrown ''glob failed''), idle)
   \<and> guide_build pkg_fail_env idle = (Some (Thrown ''ENOENT package.json''), idle)
   \<and> fst (guide_build missing_module_env idle) = Some (Thrown ''Cannot find module'')
   \<and> done_calls (snd (guide_build missing_module_env idle)) = 0
   \<and> fst (the (on_change missing_module_env (watch_build no_watchers) ConfigGuide idle)) \<noteq> None
   \<and> reloads (snd (the (on_change missing_module_env (watch_build no_watchers) ConfigGuide idle))) = 0"
proof -
  let ?g = "guide_build glob_fail_env idle"
  let ?p = "guide_build pkg_fail_env idle"
  let ?m = "guide_build missing_module_env idle"
  let ?o = "the (on_change missing_module_env (watch_build no_watchers) ConfigGuide idle)"
  let ?fs = "[''guide/index.js'', ''guide/button.js'', ''guide/card.js'']"
  have g: "guide_build glob_fail_env idle = (fst ?g, snd ?g)" by simp
  have g1: "matched glob_fail_env = Inl (Thrown ''glob failed'')" by code_simp
  from load_failures_propagate [OF g, of "Thrown ''glob failed''"] g1
  have c1: "fst ?g = Some (Thrown ''glob failed'') \<and> snd ?g = idle" by blast
  have p: "guide_build pkg_fail_env idle = (fst ?p, snd ?p)" by simp
  have p1: "matched pkg_fail_env = Inr ?fs \<and> package_json pkg_fail_env = Inl (Thrown ''ENOENT package.json'')"
    by code_simp
  from load_failures_propagate [OF p, of "Thrown ''ENOENT package.json''" ?fs] p1
  have c2: "fst ?p = Some (Thrown ''ENOENT package.json'') \<and> snd ?p = idle" by blast
  have m: "guide_build missing_module_env idle = (fst ?m, snd ?m)" by simp
  have m1: "((''../guide/missing.js'', 1001), Inl (Thrown ''Cannot find module''))
              \<in> set (drop (length (imported idle)) (imported (snd ?m)))" by code_simp
  have m2: "on_change missing_module_env (watch_build no_watchers) ConfigGuide idle
              = Some (fst ?o, snd ?o)" by code_simp
  have m3: "done_calls (snd ?o) = done_calls idle" by code_simp
  from load_failures_propagate [OF m, of "Thrown ''Cannot find module''" ?fs
      "(''../guide/missing.js'', 1001)" idle "fst ?o" "snd ?o"] m1 m2 m3
  have c3: "fst ?m = Some (Thrown ''Cannot find module'')
     \<and> done_calls (snd ?m) = done_calls idle
     \<and> fst ?o \<noteq> None \<and> reloads (snd ?o) = reloads idle" by simp
  from c1 c2 c3 show ?thesis by (simp add: prod_eq_iff idle_def)
qed

end
